theory Spec2Isabelle
  imports Complex_Main "HOL-Library.Multiset" "HOL-Library.AList" "HOL-Library.Log_Nat"
begin

section \<open>Python values used by \<open>envs/env_trs_uni.py\<close>\<close>

subsection \<open>Exceptions\<close>

text \<open>
  Every \<open>raise\<close> that the modelled methods can reach is a value of this type; a method
  that can raise returns \<open>error + 'a\<close> with \<open>Inl\<close> for the exception.
\<close>

datatype error =
    IndexError
  | KeyError string
  | ValueError
  | ZeroDivisionError

subsection \<open>Binary64 floating point\<close>

text \<open>
  \<open>task_progress\<close> is a Python \<open>float\<close>, an IEEE 754 binary64 number. A finite binary64
  value is a real number, and \<open>+\<close> and \<open>/\<close> return the exact result rounded to the nearest
  value with a 53-bit significand, ties to the even significand. The model covers the
  normal range (magnitudes from \<open>2^-1022\<close> up to the largest finite value); overflow to
  infinity, subnormals and NaN are outside it.
\<close>

definition round_half_even :: "real \<Rightarrow> int" where
  "round_half_even q =
     (if q - of_int \<lfloor>q\<rfloor> < 1 / 2 then \<lfloor>q\<rfloor>
      else if 1 / 2 < q - of_int \<lfloor>q\<rfloor> then \<lfloor>q\<rfloor> + 1
      else if even \<lfloor>q\<rfloor> then \<lfloor>q\<rfloor> else \<lfloor>q\<rfloor> + 1)"

definition pow2 :: "int \<Rightarrow> real" where
  "pow2 e = (if 0 \<le> e then 2 ^ nat e else 1 / 2 ^ nat (- e))"

text \<open>The exponent \<open>e\<close> of the binade of a positive real: \<open>2^e \<le> x < 2^(e+1)\<close>.\<close>

definition binade :: "real \<Rightarrow> int" where
  "binade x =
     (if 1 \<le> x then int (floorlog 2 (nat \<lfloor>x\<rfloor>)) - 1
      else - int (floorlog 2 (nat (\<lceil>1 / x\<rceil> - 1))))"

definition fl :: "real \<Rightarrow> real" where
  "fl x =
     (if x = 0 then 0
      else sgn x * of_int (round_half_even (\<bar>x\<bar> * pow2 (52 - binade \<bar>x\<bar>)))
             * pow2 (binade \<bar>x\<bar> - 52))"

definition fadd :: "real \<Rightarrow> real \<Rightarrow> real" where
  "fadd x y = fl (x + y)"

definition fdiv :: "real \<Rightarrow> real \<Rightarrow> error + real" where
  "fdiv x y = (if y = 0 then Inl ZeroDivisionError else Inr (fl (x / y)))"

subsection \<open>Strings\<close>

text \<open>\<open>s.split(c)\<close> for a one-character separator: never empty, keeps empty fields.\<close>

fun split_on :: "char \<Rightarrow> string \<Rightarrow> string list" where
  "split_on c [] = [[]]"
| "split_on c (x # xs) =
     (if x = c then [] # split_on c xs
      else (case split_on c xs of
              [] \<Rightarrow> [[x]]
            | w # ws \<Rightarrow> (x # w) # ws))"

text \<open>\<open>sep.join(ws)\<close>.\<close>

fun join :: "string \<Rightarrow> string list \<Rightarrow> string" where
  "join sep [] = []"
| "join sep [w] = w"
| "join sep (w # v # ws) = w @ sep @ join sep (v # ws)"

text \<open>\<open>str(n)\<close> for a non-negative integer, as the f-string \<open>f'dummy{i}'\<close> formats it.\<close>

definition digit_char :: "nat \<Rightarrow> char" where
  "digit_char d = ''0123456789'' ! d"

fun str_of_nat :: "nat \<Rightarrow> string" where
  "str_of_nat n =
     (if n < 10 then [digit_char n]
      else str_of_nat (n div 10) @ [digit_char (n mod 10)])"

declare str_of_nat.simps [simp del]

text \<open>
  \<open>float(tok)\<close> for a token of decimal digits, the form of every repeat count in
  \<open>COUNT\<close>; any other token is reported as \<open>ValueError\<close>. (Python's \<open>float\<close> also reads
  signs, fractions, exponents and \<open>inf\<close>/\<open>nan\<close>; no repeat count has that form, and the
  model does not cover them.)
\<close>

definition digit_val :: "char \<Rightarrow> nat option" where
  "digit_val =
     map_of [(CHR ''0'', 0), (CHR ''1'', 1), (CHR ''2'', 2), (CHR ''3'', 3), (CHR ''4'', 4),
             (CHR ''5'', 5), (CHR ''6'', 6), (CHR ''7'', 7), (CHR ''8'', 8), (CHR ''9'', 9)]"

fun nat_of_digits :: "nat \<Rightarrow> string \<Rightarrow> nat option" where
  "nat_of_digits acc [] = Some acc"
| "nat_of_digits acc (c # cs) =
     (case digit_val c of
        None \<Rightarrow> None
      | Some d \<Rightarrow> nat_of_digits (10 * acc + d) cs)"

definition float_of_str :: "string \<Rightarrow> error + real" where
  "float_of_str tok =
     (if tok = [] then Inl ValueError
      else (case nat_of_digits 0 tok of
              None \<Rightarrow> Inl ValueError
            | Some n \<Rightarrow> Inr (fl (of_nat n))))"

subsection \<open>Lists and dictionaries\<close>

text \<open>\<open>xs[i]\<close> for a non-negative index.\<close>

definition nth_err :: "'a list \<Rightarrow> nat \<Rightarrow> error + 'a" where
  "nth_err xs i = (if i < length xs then Inr (xs ! i) else Inl IndexError)"

text \<open>
  Modelled from the spec: the player's \<open>achievements\<close> attribute (class \<open>Player\<close> of the
  \<open>crafter\<close> package, which is not among the sources) is a mapping from achievement name
  to an integer count. It is taken to be a \<open>dict\<close>, as \<open>follow_achievements\<close> and
  \<open>given_achievements\<close> are: an association list in insertion order, where \<open>d[k]\<close>
  raises \<open>KeyError\<close> on a missing key and \<open>d[k] = v\<close> is \<open>AList.update\<close>.
\<close>

type_synonym counter = "(string \<times> int) list"

definition getitem :: "counter \<Rightarrow> string \<Rightarrow> error + int" where
  "getitem d k = (case map_of d k of None \<Rightarrow> Inl (KeyError k) | Some v \<Rightarrow> Inr v)"

text \<open>\<open>d[k] += 1\<close>.\<close>

definition incr :: "counter \<Rightarrow> string \<Rightarrow> error + counter" where
  "incr d k =
     (case map_of d k of
        None \<Rightarrow> Inl (KeyError k)
      | Some v \<Rightarrow> Inr (AList.update k (v + 1) d))"

text \<open>\<open>{k: 0 for k in ks}\<close>, and its use as the argument of \<open>d.update\<close>.\<close>

definition zeros_into :: "string list \<Rightarrow> counter \<Rightarrow> counter" where
  "zeros_into ks d = fold (\<lambda>k. AList.update k 0) ks d"

text \<open>Sequencing of calls that may raise.\<close>

definition bind_err :: "error + 'a \<Rightarrow> ('a \<Rightarrow> error + 'b) \<Rightarrow> error + 'b" where
  "bind_err m f = (case m of Inl e \<Rightarrow> Inl e | Inr x \<Rightarrow> f x)"

section \<open>Module constants\<close>

definition OBJS :: "string list" where
  "OBJS = [''table'', ''furnace'']"

definition MATS :: "string list" where
  "MATS = [''wood'', ''stone'', ''coal'', ''iron'', ''diamond'', ''drink'']"

definition TOOLS :: "string list" where
  "TOOLS = [''sword'', ''pickaxe'']"

definition COUNT :: "string list" where
  "COUNT = map str_of_nat [2..<11]"

definition DUMMY_BITS :: nat where
  "DUMMY_BITS = 10"

definition DUMMY_TASKS :: nat where
  "DUMMY_TASKS = 2 ^ DUMMY_BITS - 1"

section \<open>The environment\<close>

text \<open>
  What \<open>__init__\<close> fixes for the lifetime of the environment. The task lists come from
  \<open>get_synonym_tasks\<close> and \<open>get_repeat_tasks\<close>, and the sorted synonym words
  \<open>np.unique(...SYNONYMS.values()...)\<close> from \<open>SYNONYMS\<close>, all of \<open>envs.env_utils\<close>; they
  are parameters here.
\<close>

record config =
  target_achievements :: "string list"
  target_achievements_base :: "string list"
  isreptask :: "bool list"
  synonym_words :: "string list"

definition INSTRS :: "config \<Rightarrow> string list" where
  "INSTRS cfg = [''collect'', ''make'', ''place''] @ synonym_words cfg"

definition ENC_ORDER :: "config \<Rightarrow> string list" where
  "ENC_ORDER cfg = INSTRS cfg @ OBJS @ MATS @ TOOLS @ COUNT"

text \<open>The bound method stored in \<open>self._specify_task\<close>.\<close>

datatype selector = Curri | Eval

text \<open>
  The mutable attributes the methods below read and write. \<open>unlocked\<close> is \<open>self._unlocked\<close>.
  The dictionaries are \<open>None\<close> until the first \<open>reset\<close>; the model describes the
  environment from \<open>reset\<close> on. The player's counter \<open>self._player.achievements\<close> belongs
  to the simulation: it is the argument \<open>achievements\<close> of the methods that read it, and
  \<open>past_achievements\<close> holds the copy made at the end of the step before.
\<close>

record env =
  task_progress :: real
  task_idx :: nat
  task_enc :: "nat list"
  task_steps :: nat
  past_achievements :: counter
  follow_achievements :: counter
  given_achievements :: counter
  specify_task_slot :: selector
  eval_task_seq :: "nat list"
  eval_id :: nat
  unlocked :: "string set"

text \<open>
  The outcomes of the calls to \<open>np.random\<close> that one invocation of the task selector can
  make: \<open>choice_idx\<close> for \<open>np.random.choice(np.arange(n + DUMMY_TASKS), size=1)[0]\<close>,
  \<open>dummy_enc\<close> for \<open>np.random.choice([0, 1], size=DUMMY_BITS)\<close>, \<open>rdn_idx\<close> for
  \<open>np.random.randint(DUMMY_BITS, size=1)\<close>, and \<open>shuffle_perm\<close> for the rearrangement
  \<open>np.random.shuffle\<close> applies: position \<open>j\<close> of the shuffled array holds the element
  that was at position \<open>shuffle_perm ! j\<close>.
\<close>

record draw =
  choice_idx :: nat
  dummy_enc :: "nat list"
  rdn_idx :: nat
  shuffle_perm :: "nat list"

text \<open>What numpy guarantees about these outcomes.\<close>

definition valid_bits :: "draw \<Rightarrow> bool" where
  "valid_bits r \<longleftrightarrow>
     length (dummy_enc r) = DUMMY_BITS \<and> set (dummy_enc r) \<subseteq> {0, 1} \<and> rdn_idx r < DUMMY_BITS"

definition valid_perm :: "nat \<Rightarrow> draw \<Rightarrow> bool" where
  "valid_perm n r \<longleftrightarrow> mset (shuffle_perm r) = mset [0..<n]"

definition valid_draw :: "config \<Rightarrow> draw \<Rightarrow> bool" where
  "valid_draw cfg r \<longleftrightarrow>
     choice_idx r < length (target_achievements cfg) + DUMMY_TASKS \<and> valid_bits r \<and>
     valid_perm (length (target_achievements cfg)) r"

definition shuffle :: "nat list \<Rightarrow> 'a list \<Rightarrow> 'a list" where
  "shuffle p xs = map (\<lambda>j. xs ! j) p"

subsection \<open>\<open>update_given_ach\<close>\<close>

definition dummy_key :: "nat \<Rightarrow> string" where
  "dummy_key i = ''dummy'' @ str_of_nat i"

definition given_key :: "config \<Rightarrow> nat \<Rightarrow> string" where
  "given_key cfg idx =
     (if idx < length (target_achievements cfg) then target_achievements cfg ! idx
      else dummy_key (idx - length (target_achievements cfg)))"

definition update_given_ach :: "config \<Rightarrow> env \<Rightarrow> error + env" where
  "update_given_ach cfg s =
     bind_err (incr (given_achievements s) (given_key cfg (task_idx s)))
       (\<lambda>g. Inr (s\<lparr>given_achievements := g\<rparr>))"

subsection \<open>\<open>_encode_task\<close> and \<open>_decode_task\<close>\<close>

text \<open>
  The argument of \<open>_encode_task\<close> is \<open>task_idx_arg\<close>; the body reads \<open>self.task_idx\<close>.
  In the decoy branch \<open>-rdn_idx-1\<close> counts from the end of the array.
\<close>

definition encode_task :: "config \<Rightarrow> draw \<Rightarrow> env \<Rightarrow> nat \<Rightarrow> nat list" where
  "encode_task cfg r s task_idx_arg =
     (let encoding = replicate (length (ENC_ORDER cfg) + DUMMY_BITS) 0
      in if task_idx s < length (target_achievements cfg) then
           (let task = target_achievements cfg ! task_idx s;
                task_words = split_on CHR ''_'' task
            in fold (\<lambda>(i, word) enc. if word \<in> set task_words then enc[i := 1] else enc)
                 (enumerate 0 (ENC_ORDER cfg)) encoding)
         else
           (let encoding' = take (length encoding - DUMMY_BITS) encoding @ dummy_enc r
            in encoding'[length encoding' - rdn_idx r - 1 := 1]))"

fun decode_words :: "string list \<Rightarrow> (nat \<times> nat) list \<Rightarrow> error + string list" where
  "decode_words V [] = Inr []"
| "decode_words V ((i, c) # ics) =
     (if c \<noteq> 0 then
        (if i < length V then bind_err (decode_words V ics) (\<lambda>ws. Inr (V ! i # ws))
         else Inl IndexError)
      else decode_words V ics)"

definition decode_task :: "config \<Rightarrow> nat list \<Rightarrow> error + string" where
  "decode_task cfg enc =
     (if \<exists>c \<in> set (drop (length enc - DUMMY_BITS) enc). 0 < c then Inr ''dummy task''
      else bind_err (decode_words (ENC_ORDER cfg) (enumerate 0 enc))
             (\<lambda>ws. Inr (join '' '' ws)))"

subsection \<open>The task selectors\<close>

definition specify_curri_task :: "config \<Rightarrow> draw \<Rightarrow> env \<Rightarrow> env" where
  "specify_curri_task cfg r s =
     (let s1 = s\<lparr>task_idx := choice_idx r\<rparr>;
          s2 = s1\<lparr>task_steps := 0\<rparr>
      in s2\<lparr>task_enc := encode_task cfg r s2 (task_idx s2)\<rparr>)"

definition specify_eval_task :: "config \<Rightarrow> draw \<Rightarrow> env \<Rightarrow> error + env" where
  "specify_eval_task cfg r s =
     bind_err (nth_err (eval_task_seq s) (eval_id s)) (\<lambda>idx.
       let s1 = s\<lparr>task_idx := idx, eval_id := eval_id s + 1\<rparr>;
           n = length (target_achievements cfg)
       in bind_err
            (if eval_id s1 \<ge> n then
               (if n = 0 then Inl ZeroDivisionError
                else Inr (s1\<lparr>eval_id := eval_id s1 mod n,
                              eval_task_seq := shuffle (shuffle_perm r) (eval_task_seq s1)\<rparr>))
             else Inr s1)
            (\<lambda>s2. let s3 = s2\<lparr>task_steps := 0\<rparr>
                  in Inr (s3\<lparr>task_enc := encode_task cfg r s3 (task_idx s3)\<rparr>)))"

definition specify_task :: "config \<Rightarrow> draw \<Rightarrow> env \<Rightarrow> error + env" where
  "specify_task cfg r s =
     (case specify_task_slot s of
        Curri \<Rightarrow> Inr (specify_curri_task cfg r s)
      | Eval \<Rightarrow> specify_eval_task cfg r s)"

definition set_curriculum :: "config \<Rightarrow> bool \<Rightarrow> draw \<Rightarrow> env \<Rightarrow> env" where
  "set_curriculum cfg train r s =
     (if train then s\<lparr>specify_task_slot := Curri\<rparr>
      else s\<lparr>eval_task_seq := shuffle (shuffle_perm r) [0..<length (target_achievements cfg)],
              eval_id := 0,
              specify_task_slot := Eval\<rparr>)"

subsection \<open>\<open>_get_reward\<close>\<close>

text \<open>
  The six statements that both success branches share (lines 171--176 and 179--184):
  \<open>follow_achievements[task_desc] += 1\<close>, \<open>_specify_task()\<close>, \<open>update_given_ach()\<close>,
  \<open>task_progress = 0\<close>; the caller sets \<open>reward\<close> and \<open>task_failed\<close>.
\<close>

definition complete_task :: "config \<Rightarrow> draw \<Rightarrow> string \<Rightarrow> env \<Rightarrow> error + env" where
  "complete_task cfg r task_desc s =
     bind_err (incr (follow_achievements s) task_desc) (\<lambda>f.
     bind_err (specify_task cfg r (s\<lparr>follow_achievements := f\<rparr>)) (\<lambda>s1.
     bind_err (update_given_ach cfg s1) (\<lambda>s2.
     Inr (s2\<lparr>task_progress := 0\<rparr>))))"

text \<open>The repeat-task branch (lines 165--176); the result is \<open>(reward, task_failed, self)\<close>.\<close>

definition repeat_branch ::
  "config \<Rightarrow> counter \<Rightarrow> draw \<Rightarrow> string \<Rightarrow> string \<Rightarrow> env \<Rightarrow> error + (real \<times> bool \<times> env)" where
  "repeat_branch cfg achievements r task_desc btask_desc s =
     (let task_words = split_on CHR ''_'' task_desc;
          btask_words = split_on CHR ''_'' btask_desc;
          sub_btaskdesc = join ''_'' (butlast btask_words)
      in bind_err (getitem achievements sub_btaskdesc) (\<lambda>now.
         bind_err (getitem (past_achievements s) sub_btaskdesc) (\<lambda>prev.
         bind_err
           (if now - prev > 0 then
              bind_err (float_of_str (last task_words)) (\<lambda>n.
              bind_err (fdiv 1 n) (\<lambda>q.
              Inr (s\<lparr>task_progress := fadd (task_progress s) q\<rparr>)))
            else Inr s) (\<lambda>s1.
         if task_progress s1 \<ge> 1 then
           bind_err (complete_task cfg r task_desc s1) (\<lambda>s2. Inr (0 + 1, False, s2))
         else Inr (0, True, s1)))))"

text \<open>The \<open>elif\<close> branch of a task that is not a repeat task (lines 177--184).\<close>

definition single_branch ::
  "config \<Rightarrow> counter \<Rightarrow> draw \<Rightarrow> string \<Rightarrow> string \<Rightarrow> env \<Rightarrow> error + (real \<times> bool \<times> env)" where
  "single_branch cfg achievements r task_desc btask_desc s =
     bind_err (getitem achievements btask_desc) (\<lambda>now.
     bind_err (getitem (past_achievements s) btask_desc) (\<lambda>prev.
     if now - prev > 0 then
       bind_err (complete_task cfg r task_desc s) (\<lambda>s2. Inr (0 + 1, False, s2))
     else Inr (0, True, s)))"

text \<open>Lines 158--184: decoys take no branch and leave \<open>task_failed\<close> set.\<close>

definition check_task ::
  "config \<Rightarrow> counter \<Rightarrow> draw \<Rightarrow> env \<Rightarrow> error + (real \<times> bool \<times> env)" where
  "check_task cfg achievements r s =
     (if task_idx s < length (target_achievements cfg) then
        (let task_desc = target_achievements cfg ! task_idx s
         in bind_err (nth_err (target_achievements_base cfg) (task_idx s)) (\<lambda>btask_desc.
            bind_err (nth_err (isreptask cfg) (task_idx s)) (\<lambda>rep.
            if rep then repeat_branch cfg achievements r task_desc btask_desc s
            else single_branch cfg achievements r task_desc btask_desc s)))
      else Inr (0, True, s))"

text \<open>Lines 186--192.\<close>

definition check_timeout :: "config \<Rightarrow> draw \<Rightarrow> env \<Rightarrow> error + env" where
  "check_timeout cfg r s =
     (let s1 = s\<lparr>task_steps := task_steps s + 1\<rparr>
      in if task_steps s1 > 300 then
           bind_err (specify_task cfg r s1) (\<lambda>s2.
           bind_err (update_given_ach cfg s2) (\<lambda>s3.
           Inr (s3\<lparr>task_progress := 0\<rparr>)))
         else Inr s1)"

text \<open>
  \<open>_get_reward\<close> with the player's current achievement counter as \<open>achievements\<close> and
  the random outcomes \<open>r\<close> for the one selector call a step can make. The result is
  the returned reward and the environment afterwards.
\<close>

definition get_reward :: "config \<Rightarrow> counter \<Rightarrow> draw \<Rightarrow> env \<Rightarrow> error + (real \<times> env)" where
  "get_reward cfg achievements r s =
     (let new_unlocked =
            fst ` set (filter (\<lambda>(name, count). count > 0 \<and> name \<notin> unlocked s) achievements);
          s0 = s\<lparr>unlocked := unlocked s \<union> new_unlocked\<rparr>
      in bind_err (check_task cfg achievements r s0) (\<lambda>(reward, task_failed, s1).
         bind_err (if task_failed then check_timeout cfg r s1 else Inr s1) (\<lambda>s2.
         Inr (reward, s2\<lparr>past_achievements := achievements\<rparr>))))"

subsection \<open>\<open>reset\<close>\<close>

text \<open>
  The part of \<open>reset\<close> that concerns the task state (lines 72 and 77--83);
  \<open>achievements\<close> is the counter of the player created at line 70.
\<close>

definition fresh_follow :: "config \<Rightarrow> counter" where
  "fresh_follow cfg = zeros_into (target_achievements cfg) []"

definition fresh_given :: "config \<Rightarrow> counter" where
  "fresh_given cfg =
     zeros_into (map dummy_key [0..<DUMMY_TASKS]) (zeros_into (target_achievements cfg) [])"

definition reset :: "config \<Rightarrow> counter \<Rightarrow> draw \<Rightarrow> env \<Rightarrow> error + env" where
  "reset cfg achievements r s =
     (let s0 = s\<lparr>unlocked := {}, past_achievements := achievements,
                 follow_achievements := fresh_follow cfg,
                 given_achievements := fresh_given cfg\<rparr>
      in bind_err (specify_task cfg r s0) (\<lambda>s1.
         bind_err (update_given_ach cfg s1) (\<lambda>s2.
         Inr (s2\<lparr>task_progress := 0\<rparr>))))"

subsection \<open>Sequences of calls\<close>

text \<open>
  Successive steps: each element of the input is the achievement counter after the
  simulation advanced and the random outcomes for that step. The result lists the
  reward of every step and the environment after it.
\<close>

fun run :: "config \<Rightarrow> (counter \<times> draw) list \<Rightarrow> env \<Rightarrow> error + (real \<times> env) list" where
  "run cfg [] s = Inr []"
| "run cfg ((achievements, r) # ins) s =
     bind_err (get_reward cfg achievements r s) (\<lambda>(reward, s1).
     bind_err (run cfg ins s1) (\<lambda>out. Inr ((reward, s1) # out)))"

text \<open>Successive invocations of the task selector; the result lists the selected indices.\<close>

fun select_all :: "config \<Rightarrow> draw list \<Rightarrow> env \<Rightarrow> error + (nat list \<times> env)" where
  "select_all cfg [] s = Inr ([], s)"
| "select_all cfg (r # rs) s =
     bind_err (specify_task cfg r s) (\<lambda>s1.
     bind_err (select_all cfg rs s1) (\<lambda>(sel, s2). Inr (task_idx s1 # sel, s2)))"

subsection \<open>\<open>__init__\<close>\<close>

text \<open>
  The attributes as \<open>__init__\<close> leaves them (lines 40--48); attributes that are \<open>None\<close>
  or not yet set are empty.
\<close>

definition init :: "config \<Rightarrow> env" where
  "init cfg =
     \<lparr>task_progress = 0, task_idx = 0,
      task_enc = replicate (length (ENC_ORDER cfg) + DUMMY_BITS) 0, task_steps = 0,
      past_achievements = [], follow_achievements = [], given_achievements = [],
      specify_task_slot = Curri, eval_task_seq = [], eval_id = 0, unlocked = {}\<rparr>"

section \<open>Notions used in the statements\<close>

text \<open>The three task lists have one entry per real task.\<close>

definition wf_config :: "config \<Rightarrow> bool" where
  "wf_config cfg \<longleftrightarrow>
     length (target_achievements_base cfg) = length (target_achievements cfg) \<and>
     length (isreptask cfg) = length (target_achievements cfg)"

text \<open>
  The key of the achievement counter whose increase completes (or advances) the task
  with index \<open>idx\<close>: the base descriptor, without its last token for a repeat task.
  Decoys have none.
\<close>

definition watched :: "config \<Rightarrow> nat \<Rightarrow> string option" where
  "watched cfg idx =
     (if idx < length (target_achievements cfg) then
        (if isreptask cfg ! idx
         then Some (join ''_'' (butlast (split_on CHR ''_'' (target_achievements_base cfg ! idx))))
         else Some (target_achievements_base cfg ! idx))
      else None)"

text \<open>
  No qualifying delta along a sequence of counters: the watched key is present and its
  count never exceeds the count of the counter before.
\<close>

fun quiet :: "string option \<Rightarrow> counter \<Rightarrow> counter list \<Rightarrow> bool" where
  "quiet None past cs = True"
| "quiet (Some k) past [] = True"
| "quiet (Some k) past (c # cs) =
     (case map_of c k of
        None \<Rightarrow> False
      | Some v \<Rightarrow>
          (case map_of past k of
             None \<Rightarrow> False
           | Some w \<Rightarrow> v - w \<le> 0 \<and> quiet (Some k) c cs))"

text \<open>\<open>given_achievements\<close> has a slot for every task and decoy index.\<close>

definition given_ok :: "config \<Rightarrow> env \<Rightarrow> bool" where
  "given_ok cfg s \<longleftrightarrow>
     (\<forall>i < length (target_achievements cfg) + DUMMY_TASKS.
        given_key cfg i \<in> fst ` set (given_achievements s))"

text \<open>In evaluation mode the cursor is inside the sequence, which holds real indices.\<close>

definition selector_ok :: "config \<Rightarrow> env \<Rightarrow> bool" where
  "selector_ok cfg s \<longleftrightarrow>
     (case specify_task_slot s of
        Curri \<Rightarrow> True
      | Eval \<Rightarrow>
          length (eval_task_seq s) = length (target_achievements cfg) \<and>
          eval_id s < length (eval_task_seq s) \<and>
          mset (eval_task_seq s) = mset [0..<length (target_achievements cfg)])"

text \<open>The sum of all entries of \<open>given_achievements\<close>.\<close>

definition given_total :: "env \<Rightarrow> int" where
  "given_total s = sum_list (map snd (given_achievements s))"

text \<open>
  The number of steps of a run that assigned a task. The selectors set \<open>task_steps\<close> to
  0 and a step that keeps the task increments it, so these are the steps that end with
  \<open>task_steps = 0\<close>.
\<close>

definition assignments :: "(real \<times> env) list \<Rightarrow> nat" where
  "assignments out = length (filter (\<lambda>(reward, s). task_steps s = 0) out)"

text \<open>The indices a sequence of selector invocations picks (none if one raises).\<close>

definition picks :: "config \<Rightarrow> draw list \<Rightarrow> env \<Rightarrow> nat list" where
  "picks cfg rs s = (case select_all cfg rs s of Inl e \<Rightarrow> [] | Inr (sel, s') \<Rightarrow> sel)"

text \<open>Every index below \<open>n\<close> occurs exactly once in \<open>sel\<close>.\<close>

definition each_once :: "nat \<Rightarrow> nat list \<Rightarrow> bool" where
  "each_once n sel \<longleftrightarrow> list_all (\<lambda>i. count_list sel i = 1) [0..<n]"

text \<open>The rewards, and the values of \<open>task_progress\<close>, along a run.\<close>

definition rewards :: "config \<Rightarrow> (counter \<times> draw) list \<Rightarrow> env \<Rightarrow> error + real list" where
  "rewards cfg ins s = bind_err (run cfg ins s) (\<lambda>out. Inr (map fst out))"

definition progresses :: "config \<Rightarrow> (counter \<times> draw) list \<Rightarrow> env \<Rightarrow> error + real list" where
  "progresses cfg ins s =
     bind_err (run cfg ins s) (\<lambda>out. Inr (map (\<lambda>(reward, s'). task_progress s') out))"

text \<open>The environment before step \<open>i\<close> of a run from \<open>s\<close>, and the one after the run.\<close>

definition envs :: "env \<Rightarrow> (real \<times> env) list \<Rightarrow> env list" where
  "envs s out = s # map snd out"

definition final :: "env \<Rightarrow> (real \<times> env) list \<Rightarrow> env" where
  "final s out = last (envs s out)"

text \<open>
  \<open>s'\<close> still has the task of \<open>s\<close>: it differs from \<open>s\<close> at most in \<open>unlocked\<close>,
  \<open>task_steps\<close> and \<open>past_achievements\<close>.
\<close>

definition same_task :: "env \<Rightarrow> env \<Rightarrow> bool" where
  "same_task s s' \<longleftrightarrow>
     s' = s\<lparr>unlocked := unlocked s', task_steps := task_steps s',
            past_achievements := past_achievements s'\<rparr>"

text \<open>The entry of \<open>given_achievements\<close> for key \<open>k\<close> after a run (none if it raises).\<close>

definition given_after :: "config \<Rightarrow> (counter \<times> draw) list \<Rightarrow> env \<Rightarrow> string \<Rightarrow> int option" where
  "given_after cfg ins s k =
     (case run cfg ins s of
        Inl e \<Rightarrow> None
      | Inr out \<Rightarrow> map_of (given_achievements (final s out)) k)"

subsection \<open>A small instance\<close>

text \<open>
  Two real tasks: the repeat task \<open>collect_wood_10\<close> (ten wood collections) and the
  single task \<open>place_table\<close>; one synonym word.
\<close>

definition demo_cfg :: config where
  "demo_cfg =
     \<lparr>target_achievements = [''collect_wood_10'', ''place_table''],
      target_achievements_base = [''collect_wood_10'', ''place_table''],
      isreptask = [True, False],
      synonym_words = [''gather'']\<rparr>"

text \<open>Random outcomes: the curriculum picks index \<open>i\<close>, a shuffle swaps two elements.\<close>

definition demo_draw :: "nat \<Rightarrow> draw" where
  "demo_draw i =
     \<lparr>choice_idx = i, dummy_enc = [0, 1, 0, 0, 0, 0, 0, 0, 0, 0], rdn_idx = 3,
      shuffle_perm = [1, 0]\<rparr>"

definition keep_draw :: draw where
  "keep_draw =
     \<lparr>choice_idx = 0, dummy_enc = [0, 0, 0, 0, 0, 0, 0, 0, 0, 0], rdn_idx = 0,
      shuffle_perm = [0, 1]\<rparr>"

text \<open>The player's counter after \<open>k\<close> wood collections and no table placed.\<close>

definition wood :: "int \<Rightarrow> counter" where
  "wood k = [(''collect_wood'', k), (''place_table'', 0)]"

text \<open>
  The environment after \<open>reset\<close> in curriculum mode when the selector picks task 0.
\<close>

definition demo_env :: env where
  "demo_env =
     \<lparr>task_progress = 0, task_idx = 0,
      task_enc = [1, 0, 0, 0, 0, 0, 1, 0, 0, 0, 0, 0, 0, 0, 0, 0, 0, 0, 0, 0, 0, 0, 1,
                  0, 0, 0, 0, 0, 0, 0, 0, 0, 0],
      task_steps = 0,
      past_achievements = wood 0,
      follow_achievements = [(''collect_wood_10'', 0), (''place_table'', 0)],
      given_achievements = AList.update ''collect_wood_10'' 1 (fresh_given demo_cfg),
      specify_task_slot = Curri, eval_task_seq = [], eval_id = 0, unlocked = {}\<rparr>"

text \<open>The same environment after one step in which one piece of wood was collected.\<close>

definition demo_env1 :: env where
  "demo_env1 =
     demo_env\<lparr>unlocked := {''collect_wood''},
               task_progress := 3602879701896397 / 36028797018963968,
               task_steps := 1, past_achievements := wood 1\<rparr>"

text \<open>
  The environment after \<open>reset\<close> in curriculum mode when the selector picks task 1,
  \<open>place_table\<close>.
\<close>

definition table_env :: env where
  "table_env =
     \<lparr>task_progress = 0, task_idx = 1,
      task_enc = [0, 0, 1, 0, 1, 0, 0, 0, 0, 0, 0, 0, 0, 0, 0, 0, 0, 0, 0, 0, 0, 0, 0,
                  0, 0, 0, 0, 0, 0, 0, 0, 0, 0],
      task_steps = 0,
      past_achievements = wood 0,
      follow_achievements = [(''collect_wood_10'', 0), (''place_table'', 0)],
      given_achievements = AList.update ''place_table'' 1 (fresh_given demo_cfg),
      specify_task_slot = Curri, eval_task_seq = [], eval_id = 0, unlocked = {}\<rparr>"

text \<open>
  A second instance with the single repeat task \<open>place_table_5\<close>, after \<open>reset\<close> in
  curriculum mode, and the player's counter after \<open>k\<close> tables placed.
\<close>

definition five_cfg :: config where
  "five_cfg =
     \<lparr>target_achievements = [''place_table_5''],
      target_achievements_base = [''place_table_5''],
      isreptask = [True],
      synonym_words = [''gather'']\<rparr>"

definition tables :: "int \<Rightarrow> counter" where
  "tables k = [(''place_table'', k)]"

definition five_env :: env where
  "five_env =
     \<lparr>task_progress = 0, task_idx = 0,
      task_enc = [0, 0, 1, 0, 1, 0, 0, 0, 0, 0, 0, 0, 0, 0, 0, 0, 0, 1, 0, 0, 0, 0, 0,
                  0, 0, 0, 0, 0, 0, 0, 0, 0, 0],
      task_steps = 0,
      past_achievements = tables 0,
      follow_achievements = [(''place_table_5'', 0)],
      given_achievements = AList.update ''place_table_5'' 1 (fresh_given five_cfg),
      specify_task_slot = Curri, eval_task_seq = [], eval_id = 0, unlocked = {}\<rparr>"

text \<open>
  The player's counter once a table is placed, and the environments of two steps from
  \<open>table_env\<close> that both see this counter: the first step completes \<open>place_table\<close>
  and the curriculum selector draws index 1, \<open>place_table\<close>, again; the second step finds
  no new table.
\<close>

definition placed :: counter where
  "placed = [(''collect_wood'', 0), (''place_table'', 1)]"

definition table_env1 :: env where
  "table_env1 =
     table_env\<lparr>unlocked := {''place_table''},
                 follow_achievements := [(''collect_wood_10'', 0), (''place_table'', 1)],
                 given_achievements := AList.update ''place_table'' 2 (fresh_given demo_cfg),
                 past_achievements := placed\<rparr>"

definition table_env2 :: env where
  "table_env2 = table_env1\<lparr>task_steps := 1\<rparr>"

section \<open>Basic facts\<close>

subsection \<open>Dictionaries\<close>

lemma map_of_zeros_into:
  "map_of (zeros_into ks d) k = (if k \<in> set ks then Some 0 else map_of d k)"
  unfolding zeros_into_def
  by (induction ks arbitrary: d) (auto simp: update_conv')

lemma distinct_zeros_into:
  "distinct (map fst d) \<Longrightarrow> distinct (map fst (zeros_into ks d))"
  unfolding zeros_into_def
  by (induction ks arbitrary: d) (auto simp: distinct_update)

lemma keys_zeros_into: "fst ` set (zeros_into ks d) = set ks \<union> fst ` set d"
  unfolding zeros_into_def
  by (induction ks arbitrary: d) (auto simp: dom_update)

lemma values_zeros_into:
  "\<forall>v \<in> snd ` set d. v = 0 \<Longrightarrow> \<forall>v \<in> snd ` set (zeros_into ks d). v = 0"
  unfolding zeros_into_def
proof (induction ks arbitrary: d)
  case Nil
  then show ?case by simp
next
  case (Cons k ks)
  have "\<forall>v \<in> snd ` set (AList.update k 0 d). v = 0"
    using Cons.prems by (induction d) auto
  then show ?case using Cons.IH by simp
qed

lemma map_of_fresh_given:
  "map_of (fresh_given cfg) k =
     (if k \<in> dummy_key ` {0..<DUMMY_TASKS} \<or> k \<in> set (target_achievements cfg)
      then Some 0 else None)"
  by (auto simp: fresh_given_def map_of_zeros_into)

lemma distinct_fresh_given: "distinct (map fst (fresh_given cfg))"
  by (simp add: fresh_given_def distinct_zeros_into)

lemma sum_list_zeros: "\<forall>v \<in> set xs. v = (0::int) \<Longrightarrow> sum_list xs = 0"
  by (induction xs) auto

lemma sum_fresh_given: "sum_list (map snd (fresh_given cfg)) = 0"
proof -
  have "\<forall>v \<in> snd ` set (fresh_given cfg). v = 0"
    unfolding fresh_given_def by (intro values_zeros_into) simp
  then have "\<forall>v \<in> set (map snd (fresh_given cfg)). v = 0" by simp
  then show ?thesis by (rule sum_list_zeros)
qed

lemma given_key_fresh:
  "i < length (target_achievements cfg) + DUMMY_TASKS \<Longrightarrow>
   map_of (fresh_given cfg) (given_key cfg i) = Some 0"
  by (auto simp: map_of_fresh_given given_key_def)

lemma sum_update_incr:
  fixes d :: counter
  shows "distinct (map fst d) \<Longrightarrow> map_of d k = Some v \<Longrightarrow>
   sum_list (map snd (AList.update k (v + 1) d)) = sum_list (map snd d) + 1"
  by (induction d) (auto split: if_splits)

lemma incr_total:
  assumes "distinct (map fst d)" and "incr d k = Inr d'"
  shows "sum_list (map snd d') = sum_list (map snd d) + 1 \<and> distinct (map fst d') \<and>
         fst ` set d' = fst ` set d"
proof -
  from assms(2) obtain v where v: "map_of d k = Some v" and d': "d' = AList.update k (v + 1) d"
    by (auto simp: incr_def split: option.splits)
  from v have "k \<in> fst ` set d"
    by (metis map_of_eq_None_iff option.distinct(1))
  then have "fst ` set d' = fst ` set d"
    unfolding d' by (auto simp: dom_update)
  then show ?thesis
    using assms(1) v d' by (simp add: sum_update_incr distinct_update)
qed

lemma incr_other:
  "incr d k = Inr d' \<Longrightarrow> k' \<noteq> k \<Longrightarrow> map_of d' k' = map_of d k'"
  by (auto simp: incr_def update_conv' split: option.splits)

lemma incr_same:
  "incr d k = Inr d' \<Longrightarrow> \<exists>v. map_of d k = Some v \<and> map_of d' k = Some (v + 1)"
  by (auto simp: incr_def update_conv' split: option.splits)

lemma incr_defined:
  "k \<in> fst ` set d \<Longrightarrow> \<exists>d'. incr d k = Inr d'"
  by (cases "map_of d k") (auto simp: incr_def map_of_eq_None_iff)

subsection \<open>Floating point values of the instance\<close>

lemmas float_defs = fl_def binade_def pow2_def round_half_even_def compute_floorlog

lemma float_ten: "float_of_str ''10'' = Inr (fl 10)"
  by (simp add: float_of_str_def digit_val_def)

lemma tenth: "fdiv 1 (fl 10) = Inr (3602879701896397 / 36028797018963968)"
  by (simp add: fdiv_def float_defs)

lemma tenth_sums:
  "fadd 0 (3602879701896397 / 36028797018963968) = 3602879701896397 / 36028797018963968"
  "fadd (3602879701896397 / 36028797018963968) (3602879701896397 / 36028797018963968)
     = 3602879701896397 / 18014398509481984"
  "fadd (3602879701896397 / 18014398509481984) (3602879701896397 / 36028797018963968)
     = 1351079888211149 / 4503599627370496"
  "fadd (1351079888211149 / 4503599627370496) (3602879701896397 / 36028797018963968)
     = 3602879701896397 / 9007199254740992"
  "fadd (3602879701896397 / 9007199254740992) (3602879701896397 / 36028797018963968)
     = 1 / 2"
  "fadd (1 / 2) (3602879701896397 / 36028797018963968)
     = 5404319552844595 / 9007199254740992"
  "fadd (5404319552844595 / 9007199254740992) (3602879701896397 / 36028797018963968)
     = 3152519739159347 / 4503599627370496"
  "fadd (3152519739159347 / 4503599627370496) (3602879701896397 / 36028797018963968)
     = 7205759403792793 / 9007199254740992"
  "fadd (7205759403792793 / 9007199254740992) (3602879701896397 / 36028797018963968)
     = 2026619832316723 / 2251799813685248"
  "fadd (2026619832316723 / 2251799813685248) (3602879701896397 / 36028797018963968)
     = 9007199254740991 / 9007199254740992"
  "fadd (9007199254740991 / 9007199254740992) (3602879701896397 / 36028797018963968)
     = 4953959590107545 / 4503599627370496"
  by (simp_all add: fadd_def float_defs)


subsection \<open>One step of the instance\<close>

lemmas step_defs =
  get_reward_def check_task_def repeat_branch_def single_branch_def check_timeout_def
  complete_task_def bind_err_def nth_err_def getitem_def

lemma demo_step_value:
  "get_reward demo_cfg (wood 1) (demo_draw 1) demo_env = Inr (0, demo_env1)"
  by (simp add: step_defs demo_cfg_def demo_env_def demo_env1_def wood_def Let_def
      float_ten tenth tenth_sums)

section \<open>The reward of a step and the snapshot\<close>

lemma repeat_branch_flag:
  "repeat_branch cfg ach r td bd s = Inr (rew, tf, s') \<Longrightarrow>
   (rew = 0 \<and> tf) \<or> (rew = 1 \<and> \<not> tf)"
  by (auto simp: repeat_branch_def bind_err_def Let_def split: sum.splits if_splits)

lemma single_branch_flag:
  "single_branch cfg ach r td bd s = Inr (rew, tf, s') \<Longrightarrow>
   (rew = 0 \<and> tf) \<or> (rew = 1 \<and> \<not> tf)"
  by (auto simp: single_branch_def bind_err_def split: sum.splits if_splits)

lemma check_task_flag:
  "check_task cfg ach r s = Inr (rew, tf, s') \<Longrightarrow> (rew = 0 \<and> tf) \<or> (rew = 1 \<and> \<not> tf)"
  by (auto simp: check_task_def bind_err_def Let_def split: sum.splits if_splits
      dest: repeat_branch_flag single_branch_flag)

text \<open>
  Claim C6. Whenever \<open>_get_reward\<close> returns, the reward is exactly 0 or exactly 1: it
  starts at 0 and at most one of the two success branches adds 1.0 to it, however many
  counters increased in the step.
\<close>

theorem reward_zero_or_one:
  "get_reward cfg achievements r s = Inr (reward, s') \<Longrightarrow> reward = 0 \<or> reward = 1"
  by (auto simp: get_reward_def bind_err_def Let_def split: sum.splits prod.splits
      dest: check_task_flag)

theorem reward_zero_or_one_witness:
  "get_reward demo_cfg (wood 1) (demo_draw 1) demo_env = Inr (0, demo_env1) \<and>
   ((0::real) = 0 \<or> (0::real) = 1)"
  using demo_step_value reward_zero_or_one [OF demo_step_value] by simp

text \<open>
  Whenever \<open>_get_reward\<close> returns, on every path, \<open>past_achievements\<close> is the achievement
  counter the step was computed from.
\<close>

lemma snapshot_after_step:
  "get_reward cfg achievements r s = Inr (reward, s') \<Longrightarrow> past_achievements s' = achievements"
  by (auto simp: get_reward_def bind_err_def Let_def split: sum.splits prod.splits)

text \<open>
  Claim C7. If the active task is a real task and the key its delta test reads (the base
  descriptor, or the base descriptor without its last token for a repeat task) is not a
  key of the player's achievement counter, \<open>_get_reward\<close> raises \<open>KeyError\<close> for that key.
\<close>

theorem missing_key_is_fatal:
  assumes "wf_config cfg"
    and "watched cfg (task_idx s) = Some key"
    and "map_of achievements key = None"
  shows "get_reward cfg achievements r s = Inl (KeyError key)"
proof -
  from assms(2) have real: "task_idx s < length (target_achievements cfg)"
    by (auto simp: watched_def split: if_splits)
  with assms(1) have
    "task_idx s < length (target_achievements_base cfg)" "task_idx s < length (isreptask cfg)"
    by (simp_all add: wf_config_def)
  with real assms(2,3) show ?thesis
    by (auto simp: step_defs watched_def Let_def split: if_splits)
qed

theorem missing_key_is_fatal_witness:
  "wf_config demo_cfg \<and> watched demo_cfg (task_idx demo_env) = Some ''collect_wood'' \<and>
   map_of [(''place_table'', 0::int)] ''collect_wood'' = None \<and>
   get_reward demo_cfg [(''place_table'', 0)] (demo_draw 1) demo_env
     = Inl (KeyError ''collect_wood'')"
proof -
  have 1: "wf_config demo_cfg" by (simp add: wf_config_def demo_cfg_def)
  have 2: "watched demo_cfg (task_idx demo_env) = Some ''collect_wood''"
    by (simp add: watched_def demo_cfg_def demo_env_def)
  have 3: "map_of [(''place_table'', 0::int)] ''collect_wood'' = None" by simp
  show ?thesis using 1 2 3 missing_key_is_fatal [OF 1 2 3] by simp
qed

section \<open>The encoder\<close>

text \<open>
  Claim C10. \<open>_encode_task\<close> does not depend on its argument: for the same environment
  and random outcomes, any two arguments give the same encoding, which is built from the
  environment's own \<open>task_idx\<close>.
\<close>

theorem encode_ignores_argument: "encode_task cfg r s i = encode_task cfg r s j"
  by (simp add: encode_task_def)

theorem encode_ignores_argument_witness:
  "encode_task demo_cfg (demo_draw 1) demo_env 0 = encode_task demo_cfg (demo_draw 1) demo_env 7"
  using encode_ignores_argument [of demo_cfg "demo_draw 1" demo_env 0 7] by simp


lemma length_mark_fold:
  "length (fold (\<lambda>(i, word) enc. if word \<in> W then enc[i := (1::nat)] else enc)
             (enumerate k ws) enc) = length enc"
  by (induction ws arbitrary: k enc) auto

lemma nth_mark_fold:
  "j < length enc \<Longrightarrow>
   fold (\<lambda>(i, word) enc. if word \<in> W then enc[i := (1::nat)] else enc)
     (enumerate k ws) enc ! j
   = (if k \<le> j \<and> j < k + length ws \<and> ws ! (j - k) \<in> W then 1 else enc ! j)"
proof (induction ws arbitrary: k enc)
  case Nil
  then show ?case by simp
next
  case (Cons w ws)
  let ?enc = "if w \<in> W then enc[k := 1] else enc"
  have len: "j < length ?enc" using Cons.prems by simp
  have "fold (\<lambda>(i, word) enc. if word \<in> W then enc[i := 1] else enc)
          (enumerate k (w # ws)) enc ! j
        = fold (\<lambda>(i, word) enc. if word \<in> W then enc[i := 1] else enc)
            (enumerate (Suc k) ws) ?enc ! j"
    by simp
  also have "\<dots> = (if Suc k \<le> j \<and> j < Suc k + length ws \<and> ws ! (j - Suc k) \<in> W
                    then 1 else ?enc ! j)"
    by (rule Cons.IH [OF len])
  also have "\<dots> = (if k \<le> j \<and> j < k + length (w # ws) \<and> (w # ws) ! (j - k) \<in> W
                    then 1 else enc ! j)"
  proof (cases "j = k")
    case True
    then show ?thesis using Cons.prems by simp
  next
    case False
    then show ?thesis
      by (cases "k \<le> j") (auto simp: nth_Cons' Suc_diff_Suc le_less Suc_le_eq)
  qed
  finally show ?case .
qed

text \<open>The encoding of a real task is the indicator of its words over \<open>ENC_ORDER\<close>.\<close>

lemma encode_real:
  assumes "task_idx s < length (target_achievements cfg)"
  shows "encode_task cfg r s i =
           map (\<lambda>w. if w \<in> set (split_on CHR ''_'' (target_achievements cfg ! task_idx s))
                     then 1 else 0) (ENC_ORDER cfg)
           @ replicate DUMMY_BITS 0"
proof (rule nth_equalityI)
  show "length (encode_task cfg r s i) = length (map (\<lambda>w. if w \<in> set (split_on CHR ''_'' (target_achievements cfg ! task_idx s))
                     then 1 else 0) (ENC_ORDER cfg) @ replicate DUMMY_BITS 0)"
    using assms by (simp add: encode_task_def Let_def length_mark_fold)
next
  fix j
  assume "j < length (encode_task cfg r s i)"
  then have j: "j < length (ENC_ORDER cfg) + DUMMY_BITS"
    using assms by (simp add: encode_task_def Let_def length_mark_fold)
  then show "encode_task cfg r s i ! j = (map (\<lambda>w. if w \<in> set (split_on CHR ''_'' (target_achievements cfg ! task_idx s))
                     then 1 else 0) (ENC_ORDER cfg) @ replicate DUMMY_BITS 0) ! j"
    using assms by (auto simp: encode_task_def Let_def nth_mark_fold nth_append)
qed

text \<open>The encoding of a decoy: zeros, then the random bits with one of them forced to 1.\<close>

lemma encode_decoy:
  assumes "\<not> task_idx s < length (target_achievements cfg)" and "valid_bits r"
  shows "encode_task cfg r s i =
           replicate (length (ENC_ORDER cfg)) 0
           @ (dummy_enc r)[DUMMY_BITS - rdn_idx r - 1 := 1]"
proof -
  let ?L = "length (ENC_ORDER cfg)"
  from assms(2) have len: "length (dummy_enc r) = DUMMY_BITS" and rdn: "rdn_idx r < DUMMY_BITS"
    by (simp_all add: valid_bits_def)
  from rdn have pos: "\<not> ?L + DUMMY_BITS - rdn_idx r - 1 < ?L"
    and off: "?L + DUMMY_BITS - rdn_idx r - 1 - ?L = DUMMY_BITS - rdn_idx r - 1"
    by arith+
  show ?thesis
    using assms(1) len pos off
    by (simp add: encode_task_def Let_def list_update_append)
qed

lemma decode_words_zeros: "decode_words V (enumerate k (replicate m 0)) = Inr []"
  by (induction m arbitrary: k) auto

lemma decode_words_indicator:
  "decode_words (pre @ ws)
     (enumerate (length pre) (map (\<lambda>w. if P w then 1 else 0) ws @ replicate m 0))
   = Inr (filter P ws)"
proof (induction ws arbitrary: pre)
  case Nil
  then show ?case by (simp add: decode_words_zeros)
next
  case (Cons w ws)
  have "decode_words ((pre @ [w]) @ ws)
          (enumerate (length (pre @ [w])) (map (\<lambda>w. if P w then 1 else 0) ws @ replicate m 0))
        = Inr (filter P ws)"
    by (rule Cons.IH)
  then show ?case by (simp add: bind_err_def)
qed


text \<open>
  Claim C4. When the environment's task index is a real index, the encoding has the
  width \<open>|ENC_ORDER| + DUMMY_BITS\<close> and its trailing \<open>DUMMY_BITS\<close> positions are all
  zero. When it is a decoy index (and the random bits are what numpy returns), all
  leading \<open>|ENC_ORDER|\<close> positions are zero and at least one trailing position is 1.
  Hence no encoding of a real task equals an encoding of a decoy.
\<close>

theorem encoding_subspaces:
  "(task_idx s < length (target_achievements cfg) \<longrightarrow>
      length (encode_task cfg r s i) = length (ENC_ORDER cfg) + DUMMY_BITS \<and>
      drop (length (ENC_ORDER cfg)) (encode_task cfg r s i) = replicate DUMMY_BITS 0) \<and>
   (\<not> task_idx s' < length (target_achievements cfg) \<and> valid_bits r' \<longrightarrow>
      length (encode_task cfg r' s' i') = length (ENC_ORDER cfg) + DUMMY_BITS \<and>
      take (length (ENC_ORDER cfg)) (encode_task cfg r' s' i')
        = replicate (length (ENC_ORDER cfg)) 0 \<and>
      1 \<in> set (drop (length (ENC_ORDER cfg)) (encode_task cfg r' s' i'))) \<and>
   (task_idx s < length (target_achievements cfg) \<and>
    \<not> task_idx s' < length (target_achievements cfg) \<and> valid_bits r' \<longrightarrow>
      encode_task cfg r s i \<noteq> encode_task cfg r' s' i')"
proof -
  let ?L = "length (ENC_ORDER cfg)"
  have real: "length (encode_task cfg r s i) = ?L + DUMMY_BITS \<and>
      drop ?L (encode_task cfg r s i) = replicate DUMMY_BITS 0"
    if "task_idx s < length (target_achievements cfg)"
    by (simp add: encode_real [OF that])
  have decoy: "length (encode_task cfg r' s' i') = ?L + DUMMY_BITS \<and>
      take ?L (encode_task cfg r' s' i') = replicate ?L 0 \<and>
      1 \<in> set (drop ?L (encode_task cfg r' s' i'))"
    if a: "\<not> task_idx s' < length (target_achievements cfg)" and b: "valid_bits r'"
  proof -
    from b have len: "length (dummy_enc r') = DUMMY_BITS" and rdn: "rdn_idx r' < DUMMY_BITS"
      by (simp_all add: valid_bits_def)
    from len rdn have "DUMMY_BITS - rdn_idx r' - 1 < length (dummy_enc r')" by arith
    then have "1 \<in> set ((dummy_enc r')[DUMMY_BITS - rdn_idx r' - 1 := 1])"
      by (rule set_update_memI)
    then show ?thesis using len by (simp add: encode_decoy [OF a b])
  qed
  have "encode_task cfg r s i \<noteq> encode_task cfg r' s' i'"
    if "task_idx s < length (target_achievements cfg)"
      and "\<not> task_idx s' < length (target_achievements cfg)" and "valid_bits r'"
  proof
    assume eq: "encode_task cfg r s i = encode_task cfg r' s' i'"
    from decoy [OF that(2,3)] have "1 \<in> set (drop ?L (encode_task cfg r' s' i'))" by simp
    with eq real [OF that(1)] show False by simp
  qed
  with real decoy show ?thesis by blast
qed

theorem encoding_subspaces_witness:
  "task_idx demo_env < length (target_achievements demo_cfg) \<and>
   \<not> task_idx (demo_env\<lparr>task_idx := 100\<rparr>) < length (target_achievements demo_cfg) \<and>
   valid_bits (demo_draw 100) \<and>
   drop (length (ENC_ORDER demo_cfg)) (encode_task demo_cfg (demo_draw 0) demo_env 0)
     = replicate DUMMY_BITS 0 \<and>
   take (length (ENC_ORDER demo_cfg))
     (encode_task demo_cfg (demo_draw 100) (demo_env\<lparr>task_idx := 100\<rparr>) 100)
     = replicate (length (ENC_ORDER demo_cfg)) 0 \<and>
   1 \<in> set (drop (length (ENC_ORDER demo_cfg))
     (encode_task demo_cfg (demo_draw 100) (demo_env\<lparr>task_idx := 100\<rparr>) 100)) \<and>
   encode_task demo_cfg (demo_draw 0) demo_env 0
     \<noteq> encode_task demo_cfg (demo_draw 100) (demo_env\<lparr>task_idx := 100\<rparr>) 100"
proof -
  have 1: "task_idx demo_env < length (target_achievements demo_cfg)"
    by (simp add: demo_env_def demo_cfg_def)
  have 2: "\<not> task_idx (demo_env\<lparr>task_idx := 100\<rparr>) < length (target_achievements demo_cfg)"
    by (simp add: demo_cfg_def)
  have 3: "valid_bits (demo_draw 100)"
    by (simp add: valid_bits_def demo_draw_def DUMMY_BITS_def)
  show ?thesis
    using 1 2 3
      encoding_subspaces [of demo_env demo_cfg "demo_draw 0" 0
        "demo_env\<lparr>task_idx := 100\<rparr>" "demo_draw 100" 100]
    by blast
qed

section \<open>Decoding an encoding\<close>

lemma decode_real:
  assumes "task_idx s < length (target_achievements cfg)"
  shows "decode_task cfg (encode_task cfg r s i) =
           Inr (join '' ''
                 (filter (\<lambda>w. w \<in> set (split_on CHR ''_'' (target_achievements cfg ! task_idx s)))
                    (ENC_ORDER cfg)))"
proof -
  let ?P = "\<lambda>w. w \<in> set (split_on CHR ''_'' (target_achievements cfg ! task_idx s))"
  let ?enc = "map (\<lambda>w. if ?P w then 1 else 0) (ENC_ORDER cfg) @ replicate DUMMY_BITS (0::nat)"
  have enc: "encode_task cfg r s i = ?enc" by (rule encode_real [OF assms])
  have tail: "drop (length ?enc - DUMMY_BITS) ?enc = replicate DUMMY_BITS 0" by simp
  have "decode_words ([] @ ENC_ORDER cfg) (enumerate (length ([]::string list)) ?enc)
          = Inr (filter ?P (ENC_ORDER cfg))"
    by (rule decode_words_indicator)
  then have words: "decode_words (ENC_ORDER cfg) (enumerate 0 ?enc) = Inr (filter ?P (ENC_ORDER cfg))"
    by simp
  show ?thesis
    unfolding enc decode_task_def tail words by (simp add: bind_err_def)
qed

lemma decode_decoy:
  assumes "\<not> task_idx s < length (target_achievements cfg)" and "valid_bits r"
  shows "decode_task cfg (encode_task cfg r s i) = Inr ''dummy task''"
proof -
  let ?L = "length (ENC_ORDER cfg)"
  let ?bits = "(dummy_enc r)[DUMMY_BITS - rdn_idx r - 1 := 1]"
  from assms(2) have len: "length (dummy_enc r) = DUMMY_BITS" and rdn: "rdn_idx r < DUMMY_BITS"
    by (simp_all add: valid_bits_def)
  from len rdn have "DUMMY_BITS - rdn_idx r - 1 < length (dummy_enc r)" by arith
  then have "1 \<in> set ?bits" by (rule set_update_memI)
  then have "\<exists>c \<in> set ?bits. 0 < c" by (rule rev_bexI) simp
  then show ?thesis
    using len by (simp add: encode_decoy [OF assms] decode_task_def)
qed

text \<open>
  Claim C5. For a real task index, decoding the encoding gives the words of
  \<open>ENC_ORDER\<close> that occur among the underscore-separated tokens of the surface
  descriptor, in the order of \<open>ENC_ORDER\<close>, joined by single spaces. For a decoy index
  (with the random bits numpy returns) it gives exactly \<open>dummy task\<close>.
\<close>

theorem decode_encode:
  "(task_idx s < length (target_achievements cfg) \<longrightarrow>
      decode_task cfg (encode_task cfg r s i) =
        Inr (join '' ''
              (filter (\<lambda>w. w \<in> set (split_on CHR ''_'' (target_achievements cfg ! task_idx s)))
                 (ENC_ORDER cfg)))) \<and>
   (\<not> task_idx s < length (target_achievements cfg) \<and> valid_bits r \<longrightarrow>
      decode_task cfg (encode_task cfg r s i) = Inr ''dummy task'')"
  using decode_real decode_decoy by blast

theorem decode_encode_witness:
  "task_idx demo_env < length (target_achievements demo_cfg) \<and>
   decode_task demo_cfg (encode_task demo_cfg (demo_draw 0) demo_env 0)
     = Inr ''collect wood 10'' \<and>
   \<not> task_idx (demo_env\<lparr>task_idx := 100\<rparr>) < length (target_achievements demo_cfg) \<and>
   valid_bits (demo_draw 100) \<and>
   decode_task demo_cfg (encode_task demo_cfg (demo_draw 100) (demo_env\<lparr>task_idx := 100\<rparr>) 100)
     = Inr ''dummy task''"
proof -
  have 1: "task_idx demo_env < length (target_achievements demo_cfg)"
    by (simp add: demo_env_def demo_cfg_def)
  have 2: "\<not> task_idx (demo_env\<lparr>task_idx := 100\<rparr>) < length (target_achievements demo_cfg)"
    by (simp add: demo_cfg_def)
  have 3: "valid_bits (demo_draw 100)"
    by (simp add: valid_bits_def demo_draw_def DUMMY_BITS_def)
  have 4: "join '' ''
             (filter (\<lambda>w. w \<in> set (split_on CHR ''_'' (target_achievements demo_cfg ! task_idx demo_env)))
                (ENC_ORDER demo_cfg)) = ''collect wood 10''"
    by (simp add: demo_env_def demo_cfg_def ENC_ORDER_def INSTRS_def OBJS_def MATS_def
        TOOLS_def COUNT_def str_of_nat.simps digit_char_def upt_rec_numeral)
  show ?thesis
    using 1 2 3 4
      decode_encode [of demo_env demo_cfg "demo_draw 0" 0]
      decode_encode [of "demo_env\<lparr>task_idx := 100\<rparr>" demo_cfg "demo_draw 100" 100]
    by simp
qed


section \<open>The evaluation cursor\<close>

lemma mset_shuffle:
  assumes "mset p = mset [0..<length xs]"
  shows "mset (shuffle p xs) = mset xs"
proof -
  have "mset (shuffle p xs) = image_mset (\<lambda>j. xs ! j) (mset p)"
    by (simp add: shuffle_def)
  also have "\<dots> = image_mset (\<lambda>j. xs ! j) (mset [0..<length xs])"
    by (simp add: assms)
  also have "\<dots> = mset (map (\<lambda>j. xs ! j) [0..<length xs])"
    by simp
  also have "\<dots> = mset xs"
    by (simp add: map_nth)
  finally show ?thesis .
qed

lemma length_shuffle: "mset p = mset [0..<n] \<Longrightarrow> length (shuffle p xs) = n"
  by (metis length_map shuffle_def size_mset length_upt diff_zero)

lemma each_once_perm:
  assumes "mset sel = mset [0..<n]"
  shows "each_once n sel"
proof -
  have "count_list sel i = 1" if "i < n" for i
  proof -
    have "count_list sel i = count (mset sel) i" by (simp add: count_mset)
    also have "\<dots> = count (mset [0..<n]) i" by (simp add: assms)
    also have "\<dots> = 1" using that by (simp add: distinct_count_atmost_1 [THEN iffD1])
    finally show ?thesis .
  qed
  then show ?thesis by (simp add: each_once_def list_all_iff)
qed

text \<open>One invocation in evaluation mode with the cursor inside the sequence.\<close>

lemma specify_eval_step:
  assumes "specify_task_slot s = Eval"
    and "length (eval_task_seq s) = length (target_achievements cfg)"
    and "eval_id s < length (target_achievements cfg)"
  shows "\<exists>s'. specify_task cfg r s = Inr s' \<and>
           task_idx s' = eval_task_seq s ! eval_id s \<and>
           specify_task_slot s' = Eval \<and> task_steps s' = 0 \<and>
           given_achievements s' = given_achievements s \<and>
           (if eval_id s + 1 = length (target_achievements cfg)
            then eval_id s' = 0 \<and>
                 eval_task_seq s' = shuffle (shuffle_perm r) (eval_task_seq s)
            else eval_id s' = eval_id s + 1 \<and> eval_task_seq s' = eval_task_seq s)"
proof (cases "eval_id s + 1 = length (target_achievements cfg)")
  case True
  then have "Suc (eval_id s) mod length (target_achievements cfg) = 0" by simp
  with True assms show ?thesis
    by (auto simp: specify_task_def specify_eval_task_def bind_err_def nth_err_def Let_def)
next
  case False
  with assms show ?thesis
    by (auto simp: specify_task_def specify_eval_task_def bind_err_def nth_err_def Let_def)
qed

lemma select_all_segment:
  assumes "specify_task_slot s = Eval"
    and "length (eval_task_seq s) = length (target_achievements cfg)"
    and "eval_id s + length rs \<le> length (target_achievements cfg)"
    and "\<forall>r \<in> set rs. valid_perm (length (target_achievements cfg)) r"
  shows "\<exists>s'. select_all cfg rs s
             = Inr (take (length rs) (drop (eval_id s) (eval_task_seq s)), s') \<and>
           specify_task_slot s' = Eval \<and>
           length (eval_task_seq s') = length (target_achievements cfg) \<and>
           (if rs \<noteq> [] \<and> eval_id s + length rs = length (target_achievements cfg)
            then eval_id s' = 0 \<and> mset (eval_task_seq s') = mset (eval_task_seq s)
            else eval_id s' = eval_id s + length rs \<and> eval_task_seq s' = eval_task_seq s)"
  using assms
proof (induction rs arbitrary: s)
  case Nil
  then show ?case by simp
next
  case (Cons r rs)
  let ?n = "length (target_achievements cfg)"
  from Cons.prems have inside: "eval_id s < ?n" by simp
  from specify_eval_step [OF Cons.prems(1,2) inside, of r]
  obtain s1 where s1: "specify_task cfg r s = Inr s1"
    and idx: "task_idx s1 = eval_task_seq s ! eval_id s"
    and slot: "specify_task_slot s1 = Eval"
    and nxt: "if eval_id s + 1 = ?n
              then eval_id s1 = 0 \<and> eval_task_seq s1 = shuffle (shuffle_perm r) (eval_task_seq s)
              else eval_id s1 = eval_id s + 1 \<and> eval_task_seq s1 = eval_task_seq s"
    by blast
  from Cons.prems(4) have perm: "mset (shuffle_perm r) = mset [0..<?n]"
    by (simp add: valid_perm_def)
  have hd: "take (Suc (length rs)) (drop (eval_id s) (eval_task_seq s))
            = eval_task_seq s ! eval_id s # take (length rs) (drop (Suc (eval_id s)) (eval_task_seq s))"
    using inside Cons.prems(2) by (simp add: Cons_nth_drop_Suc [symmetric])
  show ?case
  proof (cases "eval_id s + 1 = ?n")
    case True
    have "eval_id s + Suc (length rs) \<le> ?n" using Cons.prems(3) by simp
    with True have "length rs = 0" by linarith
    then have empty: "rs = []" by simp
    have sel: "select_all cfg (r # rs) s = Inr ([task_idx s1], s1)"
      using s1 empty by (simp add: bind_err_def)
    have tk: "take (length (r # rs)) (drop (eval_id s) (eval_task_seq s)) = [task_idx s1]"
      using hd idx empty by simp
    have len1: "length (eval_task_seq s1) = ?n"
      using True nxt perm by (simp add: length_shuffle)
    have "eval_id s1 = 0" and "mset (eval_task_seq s1) = mset (eval_task_seq s)"
      using True nxt perm Cons.prems(2) by (simp_all add: mset_shuffle)
    with True empty have cond:
      "if r # rs \<noteq> [] \<and> eval_id s + length (r # rs) = ?n
       then eval_id s1 = 0 \<and> mset (eval_task_seq s1) = mset (eval_task_seq s)
       else eval_id s1 = eval_id s + length (r # rs) \<and> eval_task_seq s1 = eval_task_seq s"
      by simp
    from sel tk have "select_all cfg (r # rs) s
        = Inr (take (length (r # rs)) (drop (eval_id s) (eval_task_seq s)), s1)"
      by (simp only:)
    with slot len1 cond show ?thesis by blast
  next
    case False
    with nxt have id1: "eval_id s1 = eval_id s + 1" and seq1: "eval_task_seq s1 = eval_task_seq s"
      by simp_all
    have "\<exists>s'. select_all cfg rs s1
             = Inr (take (length rs) (drop (eval_id s1) (eval_task_seq s1)), s') \<and>
           specify_task_slot s' = Eval \<and>
           length (eval_task_seq s') = ?n \<and>
           (if rs \<noteq> [] \<and> eval_id s1 + length rs = ?n
            then eval_id s' = 0 \<and> mset (eval_task_seq s') = mset (eval_task_seq s1)
            else eval_id s' = eval_id s1 + length rs \<and> eval_task_seq s' = eval_task_seq s1)"
      using Cons.prems slot id1 seq1 by (intro Cons.IH) simp_all
    then obtain s' where rest: "select_all cfg rs s1
             = Inr (take (length rs) (drop (Suc (eval_id s)) (eval_task_seq s)), s')"
      and slot': "specify_task_slot s' = Eval"
      and len': "length (eval_task_seq s') = ?n"
      and fin: "if rs \<noteq> [] \<and> eval_id s1 + length rs = ?n
            then eval_id s' = 0 \<and> mset (eval_task_seq s') = mset (eval_task_seq s1)
            else eval_id s' = eval_id s1 + length rs \<and> eval_task_seq s' = eval_task_seq s1"
      using id1 seq1 by auto
    have "select_all cfg (r # rs) s
            = Inr (take (length (r # rs)) (drop (eval_id s) (eval_task_seq s)), s')"
      using s1 rest idx hd by (simp add: bind_err_def)
    moreover have "if r # rs \<noteq> [] \<and> eval_id s + length (r # rs) = ?n
            then eval_id s' = 0 \<and> mset (eval_task_seq s') = mset (eval_task_seq s)
            else eval_id s' = eval_id s + length (r # rs) \<and> eval_task_seq s' = eval_task_seq s"
      using fin id1 seq1 False by (cases "rs = []") (auto split: if_splits)
    ultimately show ?thesis using slot' len' by blast
  qed
qed

text \<open>A pass: as many invocations as there are real tasks, from cursor 0.\<close>

lemma one_pass:
  assumes "specify_task_slot s = Eval" and "eval_id s = 0"
    and "mset (eval_task_seq s) = mset [0..<length (target_achievements cfg)]"
    and "length rs = length (target_achievements cfg)"
    and "\<forall>r \<in> set rs. valid_perm (length (target_achievements cfg)) r"
  shows "\<exists>s'. select_all cfg rs s = Inr (eval_task_seq s, s') \<and>
           specify_task_slot s' = Eval \<and> eval_id s' = 0 \<and>
           mset (eval_task_seq s') = mset [0..<length (target_achievements cfg)]"
proof -
  from assms(3) have len: "length (eval_task_seq s) = length (target_achievements cfg)"
    by (metis size_mset length_upt diff_zero)
  from select_all_segment [OF assms(1) len, of rs] assms(2,4,5)
  obtain s' where "select_all cfg rs s
             = Inr (take (length rs) (drop (eval_id s) (eval_task_seq s)), s')"
    and "specify_task_slot s' = Eval"
    and "if rs \<noteq> [] \<and> eval_id s + length rs = length (target_achievements cfg)
            then eval_id s' = 0 \<and> mset (eval_task_seq s') = mset (eval_task_seq s)
            else eval_id s' = eval_id s + length rs \<and> eval_task_seq s' = eval_task_seq s"
    by auto
  then show ?thesis
    using assms(2,3,4) len by (cases "rs = []") (auto split: if_splits)
qed

lemma select_all_append:
  "select_all cfg (rs @ rs') s =
     bind_err (select_all cfg rs s) (\<lambda>(sel, s1).
     bind_err (select_all cfg rs' s1) (\<lambda>(sel', s2). Inr (sel @ sel', s2)))"
  by (induction rs arbitrary: s) (auto simp: bind_err_def split: sum.splits)

lemma passes:
  assumes "specify_task_slot s = Eval" and "eval_id s = 0"
    and "mset (eval_task_seq s) = mset [0..<length (target_achievements cfg)]"
    and "length rs = k * length (target_achievements cfg)"
    and "\<forall>r \<in> set rs. valid_perm (length (target_achievements cfg)) r"
  shows "\<exists>sel s'. select_all cfg rs s = Inr (sel, s') \<and>
           length sel = k * length (target_achievements cfg) \<and>
           (\<forall>j<k. each_once (length (target_achievements cfg))
                     (take (length (target_achievements cfg))
                        (drop (j * length (target_achievements cfg)) sel)))"
  using assms
proof (induction k arbitrary: rs s)
  case 0
  then show ?case by simp
next
  case (Suc k)
  let ?n = "length (target_achievements cfg)"
  let ?a = "take ?n rs" and ?b = "drop ?n rs"
  from Suc.prems(4) have la: "length ?a = ?n" and lb: "length ?b = k * ?n" by simp_all
  from Suc.prems(5) have va: "\<forall>r \<in> set ?a. valid_perm ?n r" and vb: "\<forall>r \<in> set ?b. valid_perm ?n r"
    by (auto dest: in_set_takeD in_set_dropD)
  from one_pass [OF Suc.prems(1,2,3) la va]
  obtain s1 where first: "select_all cfg ?a s = Inr (eval_task_seq s, s1)"
    and inv1: "specify_task_slot s1 = Eval" "eval_id s1 = 0"
      "mset (eval_task_seq s1) = mset [0..<?n]"
    by blast
  from Suc.IH [OF inv1 lb vb]
  obtain sel s' where rest: "select_all cfg ?b s1 = Inr (sel, s')"
    and lsel: "length sel = k * ?n"
    and once: "\<forall>j<k. each_once ?n (take ?n (drop (j * ?n) sel))"
    by blast
  from Suc.prems(3) have len: "length (eval_task_seq s) = ?n"
    by (metis size_mset length_upt diff_zero)
  have "select_all cfg (?a @ ?b) s = Inr (eval_task_seq s @ sel, s')"
    unfolding select_all_append using first rest by (simp add: bind_err_def)
  then have run: "select_all cfg rs s = Inr (eval_task_seq s @ sel, s')" by simp
  have "each_once ?n (take ?n (drop (j * ?n) (eval_task_seq s @ sel)))" if "j < Suc k" for j
  proof (cases j)
    case 0
    then show ?thesis using len Suc.prems(3) by (simp add: each_once_perm)
  next
    case (Suc j')
    with that have "j' < k" by simp
    with once have "each_once ?n (take ?n (drop (j' * ?n) sel))" by simp
    moreover have "drop (j * ?n) (eval_task_seq s @ sel) = drop (j' * ?n) sel"
      using Suc len by simp
    ultimately show ?thesis by simp
  qed
  with run lsel len show ?case by simp
qed

lemma set_curriculum_eval:
  assumes "valid_perm (length (target_achievements cfg)) r0"
  shows "specify_task_slot (set_curriculum cfg False r0 s) = Eval \<and>
         eval_id (set_curriculum cfg False r0 s) = 0 \<and>
         mset (eval_task_seq (set_curriculum cfg False r0 s))
           = mset [0..<length (target_achievements cfg)]"
  using assms by (simp add: set_curriculum_def valid_perm_def mset_shuffle)


text \<open>
  Claim C2, as the code has it. After \<open>set_curriculum(train=False)\<close> the invocations of
  the selector fall into consecutive passes of \<open>len(target_achievements)\<close> invocations
  each; none of them raises, and within every pass each real task index is selected
  exactly once. (The shuffled array is consumed one index per call; the call that
  exhausts it sets the cursor to 0 and reshuffles.)
\<close>

theorem eval_pass_each_once:
  assumes "valid_perm (length (target_achievements cfg)) r0"
    and "\<forall>r \<in> set rs. valid_perm (length (target_achievements cfg)) r"
    and "length rs = k * length (target_achievements cfg)"
  shows "\<exists>sel s'. select_all cfg rs (set_curriculum cfg False r0 s) = Inr (sel, s') \<and>
           length sel = k * length (target_achievements cfg) \<and>
           (\<forall>j<k. each_once (length (target_achievements cfg))
                     (take (length (target_achievements cfg))
                        (drop (j * length (target_achievements cfg)) sel)))"
proof -
  from set_curriculum_eval [OF assms(1), of s]
  have "specify_task_slot (set_curriculum cfg False r0 s) = Eval"
    and "eval_id (set_curriculum cfg False r0 s) = 0"
    and "mset (eval_task_seq (set_curriculum cfg False r0 s))
           = mset [0..<length (target_achievements cfg)]"
    by simp_all
  then show ?thesis using assms(3,2) by (rule passes)
qed

lemma demo_perms:
  "valid_perm (length (target_achievements demo_cfg)) keep_draw"
  "valid_perm (length (target_achievements demo_cfg)) (demo_draw i)"
  by (simp_all add: valid_perm_def demo_cfg_def keep_draw_def demo_draw_def upt_rec_numeral)

theorem eval_pass_each_once_witness:
  "valid_perm (length (target_achievements demo_cfg)) keep_draw \<and>
   valid_perm (length (target_achievements demo_cfg)) (demo_draw 0) \<and>
   length [keep_draw, demo_draw 0, keep_draw, keep_draw]
     = 2 * length (target_achievements demo_cfg) \<and>
   length (picks demo_cfg [keep_draw, demo_draw 0, keep_draw, keep_draw]
             (set_curriculum demo_cfg False keep_draw (init demo_cfg))) = 4 \<and>
   each_once 2 (take 2 (picks demo_cfg [keep_draw, demo_draw 0, keep_draw, keep_draw]
                          (set_curriculum demo_cfg False keep_draw (init demo_cfg)))) \<and>
   each_once 2 (take 2 (drop 2 (picks demo_cfg [keep_draw, demo_draw 0, keep_draw, keep_draw]
                          (set_curriculum demo_cfg False keep_draw (init demo_cfg)))))"
proof -
  let ?rs = "[keep_draw, demo_draw 0, keep_draw, keep_draw]"
  have n: "length (target_achievements demo_cfg) = 2" by (simp add: demo_cfg_def)
  have 1: "valid_perm (length (target_achievements demo_cfg)) keep_draw" by (rule demo_perms)
  have 2: "\<forall>r \<in> set ?rs. valid_perm (length (target_achievements demo_cfg)) r"
    by (simp add: demo_perms)
  have 3: "length ?rs = 2 * length (target_achievements demo_cfg)" by (simp add: n)
  from eval_pass_each_once [OF 1 2 3, of "init demo_cfg"]
  obtain sel s' where run: "select_all demo_cfg ?rs
        (set_curriculum demo_cfg False keep_draw (init demo_cfg)) = Inr (sel, s')"
    and len: "length sel = 2 * length (target_achievements demo_cfg)"
    and once: "\<forall>j<2. each_once (length (target_achievements demo_cfg))
                     (take (length (target_achievements demo_cfg))
                        (drop (j * length (target_achievements demo_cfg)) sel))"
    by blast
  from run have picks: "picks demo_cfg ?rs
        (set_curriculum demo_cfg False keep_draw (init demo_cfg)) = sel"
    by (simp add: picks_def)
  from once have all: "\<forall>j<2. each_once 2 (take 2 (drop (j * 2) sel))"
    unfolding n .
  have "(0::nat) < 2" and "(1::nat) < 2" by simp_all
  with all have "each_once 2 (take 2 (drop (0 * 2) sel))"
    and "each_once 2 (take 2 (drop (1 * 2) sel))"
    by blast+
  then have "each_once 2 (take 2 sel)" and "each_once 2 (take 2 (drop 2 sel))" by simp_all
  with 1 3 len demo_perms(2) [of 0] show ?thesis unfolding picks n by simp
qed

text \<open>
  Claim C2 as stated speaks of any window of \<open>len(target_achievements)\<close> consecutive
  invocations. With two real tasks and a reshuffle that swaps the array, the invocations
  select 0, 1, 1: the window made of the second and third invocation selects index 1
  twice and index 0 never.
\<close>

theorem eval_window_counterexample:
  "picks demo_cfg [keep_draw, demo_draw 0, keep_draw]
     (set_curriculum demo_cfg False keep_draw (init demo_cfg)) = [0, 1, 1] \<and>
   \<not> each_once (length (target_achievements demo_cfg))
       (take (length (target_achievements demo_cfg))
          (drop 1 (picks demo_cfg [keep_draw, demo_draw 0, keep_draw]
                     (set_curriculum demo_cfg False keep_draw (init demo_cfg)))))"
proof -
  have "picks demo_cfg [keep_draw, demo_draw 0, keep_draw]
     (set_curriculum demo_cfg False keep_draw (init demo_cfg)) = [0, 1, 1]"
    by (simp add: picks_def specify_task_def specify_eval_task_def set_curriculum_def
        init_def bind_err_def nth_err_def Let_def shuffle_def demo_cfg_def keep_draw_def
        demo_draw_def upt_rec_numeral)
  then show ?thesis
    by (simp add: each_once_def demo_cfg_def upt_rec_numeral)
qed


section \<open>Repeat tasks\<close>

lemma demo_cfg_fields:
  "target_achievements demo_cfg = [''collect_wood_10'', ''place_table'']"
  "target_achievements_base demo_cfg = [''collect_wood_10'', ''place_table'']"
  "isreptask demo_cfg = [True, False]"
  "synonym_words demo_cfg = [''gather'']"
  by (simp_all add: demo_cfg_def)

lemma map_of_demo_given:
  "map_of (fresh_given demo_cfg) ''place_table'' = Some 0"
  "map_of (fresh_given demo_cfg) ''collect_wood_10'' = Some 0"
  by (simp_all add: map_of_fresh_given demo_cfg_def)

lemmas demo_eval =
  step_defs demo_cfg_fields map_of_demo_given demo_env_def wood_def Let_def
  float_ten tenth tenth_sums specify_task_def specify_curri_task_def update_given_ach_def
  incr_def given_key_def update_conv' demo_draw_def

text \<open>\<open>demo_env\<close> is what \<open>reset\<close> produces after \<open>__init__\<close>.\<close>

lemma demo_env_reachable:
  "reset demo_cfg (wood 0) (demo_draw 0) (init demo_cfg) = Inr demo_env"
proof -
  have zeros: "replicate 10 (0::nat) = [0, 0, 0, 0, 0, 0, 0, 0, 0, 0]"
    by (simp add: numeral_eq_Suc)
  have enc: "encode_task demo_cfg r s i = task_enc demo_env" if "task_idx s = 0" for r s i
    using that by (simp add: encode_real demo_cfg_fields demo_env_def ENC_ORDER_def INSTRS_def OBJS_def
        MATS_def TOOLS_def COUNT_def DUMMY_BITS_def str_of_nat.simps digit_char_def
        upt_rec_numeral zeros)
  have follow: "fresh_follow demo_cfg = [(''collect_wood_10'', 0), (''place_table'', 0)]"
    by (simp add: fresh_follow_def zeros_into_def demo_cfg_fields)
  show ?thesis
    unfolding reset_def Let_def init_def specify_task_def specify_curri_task_def
    by (simp add: enc [simplified] follow update_given_ach_def incr_def given_key_def
        bind_err_def demo_cfg_fields map_of_demo_given demo_draw_def demo_env_def wood_def)
qed

text \<open>
  A qualifying delta of a repeat task adds the binary64 quotient \<open>1.0 / float(count)\<close>
  to \<open>task_progress\<close>; while the sum stays below 1.0 the reward is 0 and the task stays.
\<close>

lemma repeat_delta_adds:
  assumes "wf_config cfg" and "task_idx s < length (target_achievements cfg)"
    and "isreptask cfg ! task_idx s"
    and "k = join ''_'' (butlast (split_on CHR ''_'' (target_achievements_base cfg ! task_idx s)))"
    and "map_of ach k = Some v" and "map_of (past_achievements s) k = Some w" and "v - w > 0"
    and "float_of_str (last (split_on CHR ''_'' (target_achievements cfg ! task_idx s))) = Inr n"
    and "fdiv 1 n = Inr q" and "fadd (task_progress s) q < 1" and "task_steps s < 300"
  shows "\<exists>U. get_reward cfg ach r s
           = Inr (0, s\<lparr>unlocked := U, task_progress := fadd (task_progress s) q,
                         task_steps := task_steps s + 1, past_achievements := ach\<rparr>)"
proof -
  from assms(1,2) have "task_idx s < length (target_achievements_base cfg)"
    and "task_idx s < length (isreptask cfg)"
    by (simp_all add: wf_config_def)
  with assms(2-) have "get_reward cfg ach r s
           = Inr (0, s\<lparr>unlocked := unlocked s \<union>
                           fst ` set (filter (\<lambda>(name, count). count > 0 \<and> name \<notin> unlocked s) ach),
                         task_progress := fadd (task_progress s) q,
                         task_steps := task_steps s + 1, past_achievements := ach\<rparr>)"
    by (simp add: step_defs Let_def)
  then show ?thesis by blast
qed

text \<open>
  Claim C1 at the repeat count 10. From \<open>demo_env\<close> (task \<open>collect_wood_10\<close> active,
  progress 0), eleven consecutive steps each raise the count of \<open>collect_wood\<close> by one.
  Each of the first ten adds the binary64 quotient \<open>1.0 / 10.0\<close> to \<open>task_progress\<close>;
  the binary64 sum after the tenth is \<open>1 - 2^-53\<close>, below 1.0, so the tenth delta
  gives reward 0, and the reward 1 comes with the eleventh delta.
\<close>

theorem repeat_ten_fires_on_eleventh:
  "rewards demo_cfg (map (\<lambda>k. (wood k, demo_draw 1)) [1, 2, 3, 4, 5, 6, 7, 8, 9, 10, 11])
     demo_env
   = Inr [0, 0, 0, 0, 0, 0, 0, 0, 0, 0, 1] \<and>
   progresses demo_cfg (map (\<lambda>k. (wood k, demo_draw 1)) [1, 2, 3, 4, 5, 6, 7, 8, 9, 10])
     demo_env
   = Inr [3602879701896397 / 36028797018963968, 3602879701896397 / 18014398509481984,
          1351079888211149 / 4503599627370496, 3602879701896397 / 9007199254740992,
          1 / 2, 5404319552844595 / 9007199254740992, 3152519739159347 / 4503599627370496,
          7205759403792793 / 9007199254740992, 2026619832316723 / 2251799813685248,
          9007199254740991 / 9007199254740992]"
  by (simp add: rewards_def progresses_def demo_eval)


section \<open>Assignments\<close>

lemma specify_task_fields:
  assumes "specify_task cfg r s = Inr s'"
  shows "task_steps s' = 0" and "given_achievements s' = given_achievements s"
    and "task_progress s' = task_progress s" and "specify_task_slot s' = specify_task_slot s"
  using assms
  by (auto simp: specify_task_def specify_curri_task_def specify_eval_task_def bind_err_def
      Let_def split: selector.splits sum.splits if_splits)

lemma update_given_ach_fields:
  assumes "update_given_ach cfg s = Inr s'"
  shows "incr (given_achievements s) (given_key cfg (task_idx s)) = Inr (given_achievements s')"
    and "s' = s\<lparr>given_achievements := given_achievements s'\<rparr>"
  using assms by (auto simp: update_given_ach_def bind_err_def split: sum.splits)

text \<open>A selector call followed by \<open>update_given_ach\<close>.\<close>

lemma assign_fields:
  assumes "specify_task cfg r s = Inr s1" and "update_given_ach cfg s1 = Inr s2"
  shows "task_steps s2 = 0"
    and "incr (given_achievements s) (given_key cfg (task_idx s2)) = Inr (given_achievements s2)"
proof -
  from update_given_ach_fields [OF assms(2)]
  have a: "incr (given_achievements s1) (given_key cfg (task_idx s1)) = Inr (given_achievements s2)"
    and b: "s2 = s1\<lparr>given_achievements := given_achievements s2\<rparr>"
    by simp_all
  from b have "task_steps s2 = task_steps s1" and idx: "task_idx s2 = task_idx s1"
    by (metis env.select_convs(4) env.surjective env.update_convs(7),
        metis env.select_convs(2) env.surjective env.update_convs(7))
  then show "task_steps s2 = 0" using specify_task_fields(1) [OF assms(1)] by simp
  show "incr (given_achievements s) (given_key cfg (task_idx s2)) = Inr (given_achievements s2)"
    using a idx specify_task_fields(2) [OF assms(1)] by simp
qed

lemma complete_task_fields:
  assumes "complete_task cfg r task_desc s = Inr s'"
  shows "task_steps s' = 0 \<and>
         incr (given_achievements s) (given_key cfg (task_idx s')) = Inr (given_achievements s')"
proof -
  from assms obtain f s1 s2 where
    "specify_task cfg r (s\<lparr>follow_achievements := f\<rparr>) = Inr s1"
    and "update_given_ach cfg s1 = Inr s2" and "s' = s2\<lparr>task_progress := 0\<rparr>"
    by (auto simp: complete_task_def bind_err_def split: sum.splits)
  with assign_fields [of cfg r "s\<lparr>follow_achievements := f\<rparr>" s1 s2] show ?thesis by simp
qed

lemma repeat_branch_cases:
  assumes "repeat_branch cfg ach r task_desc btask_desc s = Inr (reward, task_failed, s')"
  shows "(\<not> task_failed \<and> task_steps s' = 0 \<and>
          incr (given_achievements s) (given_key cfg (task_idx s')) = Inr (given_achievements s'))
       \<or> (task_failed \<and> task_steps s' = task_steps s \<and>
          given_achievements s' = given_achievements s \<and> task_idx s' = task_idx s)"
  using assms
  by (auto simp: repeat_branch_def bind_err_def Let_def split: sum.splits if_splits
      dest!: complete_task_fields)

lemma single_branch_cases:
  assumes "single_branch cfg ach r task_desc btask_desc s = Inr (reward, task_failed, s')"
  shows "(\<not> task_failed \<and> task_steps s' = 0 \<and>
          incr (given_achievements s) (given_key cfg (task_idx s')) = Inr (given_achievements s'))
       \<or> (task_failed \<and> task_steps s' = task_steps s \<and>
          given_achievements s' = given_achievements s \<and> task_idx s' = task_idx s)"
  using assms
  by (auto simp: single_branch_def bind_err_def split: sum.splits if_splits
      dest!: complete_task_fields)

lemma check_task_cases:
  assumes "check_task cfg ach r s = Inr (reward, task_failed, s')"
  shows "(\<not> task_failed \<and> task_steps s' = 0 \<and>
          incr (given_achievements s) (given_key cfg (task_idx s')) = Inr (given_achievements s'))
       \<or> (task_failed \<and> task_steps s' = task_steps s \<and>
          given_achievements s' = given_achievements s \<and> task_idx s' = task_idx s)"
proof (cases "task_idx s < length (target_achievements cfg)")
  case False
  with assms show ?thesis by (simp add: check_task_def)
next
  case True
  with assms obtain b rep where
    "(if rep then repeat_branch cfg ach r (target_achievements cfg ! task_idx s) b s
      else single_branch cfg ach r (target_achievements cfg ! task_idx s) b s)
     = Inr (reward, task_failed, s')"
    by (auto simp: check_task_def bind_err_def Let_def split: sum.splits)
  then show ?thesis
    by (cases rep) (simp_all add: repeat_branch_cases single_branch_cases)
qed

lemma check_timeout_cases:
  assumes "check_timeout cfg r s = Inr s'"
  shows "(task_steps s' = 0 \<and>
          incr (given_achievements s) (given_key cfg (task_idx s')) = Inr (given_achievements s'))
       \<or> (task_steps s' = task_steps s + 1 \<and>
          given_achievements s' = given_achievements s \<and> task_idx s' = task_idx s)"
proof (cases "task_steps s + 1 > 300")
  case False
  with assms show ?thesis by (auto simp: check_timeout_def Let_def)
next
  case True
  with assms obtain s1 s2 where
    "specify_task cfg r (s\<lparr>task_steps := task_steps s + 1\<rparr>) = Inr s1"
    and "update_given_ach cfg s1 = Inr s2" and "s' = s2\<lparr>task_progress := 0\<rparr>"
    by (auto simp: check_timeout_def bind_err_def Let_def split: sum.splits)
  with assign_fields [of cfg r "s\<lparr>task_steps := task_steps s + 1\<rparr>" s1 s2] show ?thesis by simp
qed

text \<open>
  A step either assigns a task, which leaves \<open>task_steps = 0\<close> and applies
  \<open>given_achievements[key] += 1\<close> for the key of the new task, or keeps the task, which
  increments \<open>task_steps\<close> and leaves \<open>given_achievements\<close> alone.
\<close>

lemma step_cases:
  assumes "get_reward cfg ach r s = Inr (reward, s')"
  shows "(task_steps s' = 0 \<and>
          incr (given_achievements s) (given_key cfg (task_idx s')) = Inr (given_achievements s'))
       \<or> (task_steps s' = task_steps s + 1 \<and>
          given_achievements s' = given_achievements s \<and> task_idx s' = task_idx s)"
proof -
  let ?s0 = "s\<lparr>unlocked := unlocked s \<union>
      fst ` set (filter (\<lambda>(name, count). count > 0 \<and> name \<notin> unlocked s) ach)\<rparr>"
  from assms obtain tf s1 s2 where
    ct: "check_task cfg ach r ?s0 = Inr (reward, tf, s1)"
    and to: "(if tf then check_timeout cfg r s1 else Inr s1) = Inr s2"
    and s': "s' = s2\<lparr>past_achievements := ach\<rparr>"
    by (auto simp: get_reward_def bind_err_def Let_def split: sum.splits prod.splits)
  from check_task_cases [OF ct] show ?thesis
  proof
    assume "\<not> tf \<and> task_steps s1 = 0 \<and>
      incr (given_achievements ?s0) (given_key cfg (task_idx s1)) = Inr (given_achievements s1)"
    with to s' show ?thesis by simp
  next
    assume keep: "tf \<and> task_steps s1 = task_steps ?s0 \<and>
      given_achievements s1 = given_achievements ?s0 \<and> task_idx s1 = task_idx ?s0"
    with to have "check_timeout cfg r s1 = Inr s2" by simp
    from check_timeout_cases [OF this] keep s' show ?thesis by auto
  qed
qed


subsection \<open>Rewards of repeat tasks\<close>

text \<open>
  What holds for every repeat count: a step that returns reward 1 leaves
  \<open>task_progress = 0\<close> and a freshly assigned task.
\<close>

lemma reward_resets_progress:
  assumes "get_reward cfg ach r s = Inr (1, s')"
  shows "task_progress s' = 0 \<and> task_steps s' = 0"
proof -
  have finished: "task_progress s2 = 0 \<and> task_steps s2 = 0"
    if "complete_task cfg r td s1 = Inr s2" for td s1 s2
  proof -
    from that obtain f sa sb where "specify_task cfg r (s1\<lparr>follow_achievements := f\<rparr>) = Inr sa"
      and "update_given_ach cfg sa = Inr sb" and s2: "s2 = sb\<lparr>task_progress := 0\<rparr>"
      by (auto simp: complete_task_def bind_err_def split: sum.splits)
    from assign_fields(1) [OF this(1,2)] s2 show ?thesis by simp
  qed
  let ?s0 = "s\<lparr>unlocked := unlocked s \<union>
      fst ` set (filter (\<lambda>(name, count). count > 0 \<and> name \<notin> unlocked s) ach)\<rparr>"
  from assms obtain tf s1 s2 where
    ct: "check_task cfg ach r ?s0 = Inr (1, tf, s1)"
    and to: "(if tf then check_timeout cfg r s1 else Inr s1) = Inr s2"
    and s': "s' = s2\<lparr>past_achievements := ach\<rparr>"
    by (auto simp: get_reward_def bind_err_def Let_def split: sum.splits prod.splits)
  from check_task_flag [OF ct] have "\<not> tf" by simp
  with to have s2: "s2 = s1" by simp
  from ct \<open>\<not> tf\<close> have "task_progress s1 = 0 \<and> task_steps s1 = 0"
    by (auto simp: check_task_def repeat_branch_def single_branch_def bind_err_def Let_def
        split: sum.splits if_splits dest: finished)
  with s' s2 show ?thesis by simp
qed

text \<open>
  The scenario of the repeat count 5: the binary64 sum of five times \<open>1.0 / 5.0\<close> is
  exactly 1.0, and the reward comes with the fifth delta.
\<close>

lemma five_cfg_fields:
  "target_achievements five_cfg = [''place_table_5'']"
  "target_achievements_base five_cfg = [''place_table_5'']"
  "isreptask five_cfg = [True]"
  "synonym_words five_cfg = [''gather'']"
  by (simp_all add: five_cfg_def)

lemma map_of_five_given: "map_of (fresh_given five_cfg) ''place_table_5'' = Some 0"
  by (simp add: map_of_fresh_given five_cfg_def)

lemma float_five: "float_of_str ''5'' = Inr (fl 5)"
  by (simp add: float_of_str_def digit_val_def)

lemma fifth: "fdiv 1 (fl 5) = Inr (3602879701896397 / 18014398509481984)"
  by (simp add: fdiv_def float_defs)

lemma fifth_sums:
  "fadd 0 (3602879701896397 / 18014398509481984) = 3602879701896397 / 18014398509481984"
  "fadd (3602879701896397 / 18014398509481984) (3602879701896397 / 18014398509481984)
     = 3602879701896397 / 9007199254740992"
  "fadd (3602879701896397 / 9007199254740992) (3602879701896397 / 18014398509481984)
     = 1351079888211149 / 2251799813685248"
  "fadd (1351079888211149 / 2251799813685248) (3602879701896397 / 18014398509481984)
     = 3602879701896397 / 4503599627370496"
  "fadd (3602879701896397 / 4503599627370496) (3602879701896397 / 18014398509481984) = 1"
  by (simp_all add: fadd_def float_defs)

lemma five_env_reachable:
  "reset five_cfg (tables 0) (demo_draw 0) (init five_cfg) = Inr five_env"
proof -
  have zeros: "replicate 10 (0::nat) = [0, 0, 0, 0, 0, 0, 0, 0, 0, 0]"
    by (simp add: numeral_eq_Suc)
  have enc: "encode_task five_cfg r s i = task_enc five_env" if "task_idx s = 0" for r s i
    using that by (simp add: encode_real five_cfg_fields five_env_def ENC_ORDER_def INSTRS_def
        OBJS_def MATS_def TOOLS_def COUNT_def DUMMY_BITS_def str_of_nat.simps digit_char_def
        upt_rec_numeral zeros)
  have follow: "fresh_follow five_cfg = [(''place_table_5'', 0)]"
    by (simp add: fresh_follow_def zeros_into_def five_cfg_fields)
  show ?thesis
    unfolding reset_def Let_def init_def specify_task_def specify_curri_task_def
    by (simp add: enc [simplified] follow update_given_ach_def incr_def given_key_def
        bind_err_def five_cfg_fields map_of_five_given demo_draw_def five_env_def tables_def)
qed

lemma repeat_five_fires_on_fifth:
  "rewards five_cfg (map (\<lambda>k. (tables k, demo_draw 0)) [1, 2, 3, 4, 5]) five_env
   = Inr [0, 0, 0, 0, 1]"
  by (simp add: rewards_def step_defs five_cfg_fields map_of_five_given five_env_def
      tables_def Let_def float_five fifth fifth_sums specify_task_def specify_curri_task_def
      update_given_ach_def incr_def given_key_def update_conv' demo_draw_def)

subsection \<open>Counting assignments\<close>

lemma run_given:
  assumes "distinct (map fst (given_achievements s))" and "run cfg ins s = Inr out"
  shows "(\<forall>i<length out.
            if task_steps (snd (out ! i)) = 0
            then incr (given_achievements (envs s out ! i))
                   (given_key cfg (task_idx (snd (out ! i))))
                 = Inr (given_achievements (snd (out ! i)))
            else given_achievements (snd (out ! i)) = given_achievements (envs s out ! i)) \<and>
         given_total (final s out) = given_total s + int (assignments out)"
  using assms
proof (induction ins arbitrary: s out)
  case Nil
  then show ?case by (simp add: final_def envs_def assignments_def)
next
  case (Cons x ins)
  obtain a r where x: "x = (a, r)" by (cases x)
  from Cons.prems(2) x obtain reward s1 out' where
    step: "get_reward cfg a r s = Inr (reward, s1)"
    and rest: "run cfg ins s1 = Inr out'"
    and out: "out = (reward, s1) # out'"
    by (auto simp: bind_err_def split: sum.splits prod.splits)
  have first: "(task_steps s1 = 0 \<and>
          incr (given_achievements s) (given_key cfg (task_idx s1)) = Inr (given_achievements s1))
       \<or> (task_steps s1 = task_steps s + 1 \<and> given_achievements s1 = given_achievements s)"
    using step_cases [OF step] by blast
  then have total1: "given_total s1 = given_total s + (if task_steps s1 = 0 then 1 else 0)"
    and dist1: "distinct (map fst (given_achievements s1))"
    using Cons.prems(1) by (auto simp: given_total_def dest: incr_total)
  from Cons.IH [OF dist1 rest]
  have later: "\<forall>i<length out'.
            if task_steps (snd (out' ! i)) = 0
            then incr (given_achievements (envs s1 out' ! i))
                   (given_key cfg (task_idx (snd (out' ! i))))
                 = Inr (given_achievements (snd (out' ! i)))
            else given_achievements (snd (out' ! i)) = given_achievements (envs s1 out' ! i)"
    and total: "given_total (final s1 out') = given_total s1 + int (assignments out')"
    by simp_all
  have "if task_steps (snd (out ! i)) = 0
        then incr (given_achievements (envs s out ! i))
               (given_key cfg (task_idx (snd (out ! i))))
             = Inr (given_achievements (snd (out ! i)))
        else given_achievements (snd (out ! i)) = given_achievements (envs s out ! i)"
    if "i < length out" for i
  proof (cases i)
    case 0
    with first show ?thesis by (auto simp: out envs_def)
  next
    case (Suc j)
    with that out have "j < length out'" by simp
    with later have "if task_steps (snd (out' ! j)) = 0
        then incr (given_achievements (envs s1 out' ! j))
               (given_key cfg (task_idx (snd (out' ! j))))
             = Inr (given_achievements (snd (out' ! j)))
        else given_achievements (snd (out' ! j)) = given_achievements (envs s1 out' ! j)"
      by blast
    then show ?thesis by (simp add: Suc out envs_def split: if_splits)
  qed
  moreover have "given_total (final s out) = given_total s + int (assignments out)"
    using total total1 by (simp add: out final_def envs_def assignments_def)
  ultimately show ?case by blast
qed

lemma reset_given:
  assumes "reset cfg ach r s = Inr s0"
  shows "incr (fresh_given cfg) (given_key cfg (task_idx s0)) = Inr (given_achievements s0)"
proof -
  let ?s = "s\<lparr>unlocked := {}, past_achievements := ach,
              follow_achievements := fresh_follow cfg, given_achievements := fresh_given cfg\<rparr>"
  from assms obtain s1 s2 where
    "specify_task cfg r ?s = Inr s1" and "update_given_ach cfg s1 = Inr s2"
    and "s0 = s2\<lparr>task_progress := 0\<rparr>"
    by (auto simp: reset_def bind_err_def Let_def split: sum.splits)
  with assign_fields(2) [of cfg r ?s s1 s2] show ?thesis by simp
qed

text \<open>After \<open>reset\<close> there is a slot for every task and decoy index.\<close>

lemma reset_given_ok:
  assumes "reset cfg ach r s = Inr s0"
  shows "given_ok cfg s0"
proof -
  from incr_total [OF distinct_fresh_given reset_given [OF assms]]
  have "fst ` set (given_achievements s0) = fst ` set (fresh_given cfg)" by simp
  then show ?thesis
    by (auto simp: given_ok_def fresh_given_def keys_zeros_into given_key_def)
qed

text \<open>
  Claim C8. \<open>reset\<close> starts from all-zero counts and applies \<open>given_achievements[key] += 1\<close>
  for the key of the task it assigned, and nothing else. In a run after \<open>reset\<close>, every
  step that assigns a task (it ends with \<open>task_steps = 0\<close>, by success or by timeout)
  applies \<open>given_achievements[key] += 1\<close> for the key of the newly active task or decoy to
  the counts before the step, and every other step leaves the counts as they were. Hence
  the sum of the counts after the run is the number of assignments: one for \<open>reset\<close> and
  one for each assigning step.
\<close>

theorem given_counts_assignments:
  assumes "reset cfg ach0 r0 s_init = Inr s0" and "run cfg ins s0 = Inr out"
  shows "incr (fresh_given cfg) (given_key cfg (task_idx s0)) = Inr (given_achievements s0) \<and>
         (\<forall>i<length out.
            if task_steps (snd (out ! i)) = 0
            then incr (given_achievements (envs s0 out ! i))
                   (given_key cfg (task_idx (snd (out ! i))))
                 = Inr (given_achievements (snd (out ! i)))
            else given_achievements (snd (out ! i)) = given_achievements (envs s0 out ! i)) \<and>
         given_total (final s0 out) = 1 + int (assignments out)"
proof -
  note first = reset_given [OF assms(1)]
  from incr_total [OF distinct_fresh_given first]
  have "given_total s0 = 1" and "distinct (map fst (given_achievements s0))"
    by (simp_all add: given_total_def sum_fresh_given)
  with run_given [OF _ assms(2)] first show ?thesis by simp
qed

lemma demo_run_value: "run demo_cfg [(wood 1, demo_draw 1)] demo_env = Inr [(0, demo_env1)]"
  by (simp add: demo_step_value bind_err_def del: One_nat_def)

theorem given_counts_assignments_witness:
  "reset demo_cfg (wood 0) (demo_draw 0) (init demo_cfg) = Inr demo_env \<and>
   run demo_cfg [(wood 1, demo_draw 1)] demo_env = Inr [(0, demo_env1)] \<and>
   incr (fresh_given demo_cfg) (given_key demo_cfg (task_idx demo_env))
     = Inr (given_achievements demo_env) \<and>
   given_total (final demo_env [(0, demo_env1)]) = 1 + int (assignments [(0, demo_env1)])"
  using demo_env_reachable demo_run_value
    given_counts_assignments [OF demo_env_reachable demo_run_value]
  by simp


section \<open>Timeout\<close>

lemma quiet_check_task:
  assumes "wf_config cfg"
    and "quiet (watched cfg (task_idx s)) (past_achievements s) (ach # rest)"
    and "task_progress s < 1"
  shows "check_task cfg ach r s = Inr (0, True, s)"
proof (cases "task_idx s < length (target_achievements cfg)")
  case False
  then show ?thesis by (simp add: check_task_def)
next
  case True
  with assms(1) have inb: "task_idx s < length (target_achievements_base cfg)"
    and inr: "task_idx s < length (isreptask cfg)"
    by (simp_all add: wf_config_def)
  from True obtain k where k: "watched cfg (task_idx s) = Some k"
    by (cases "isreptask cfg ! task_idx s") (auto simp: watched_def)
  with assms(2) obtain v w where vw: "map_of ach k = Some v" "map_of (past_achievements s) k = Some w"
    "v - w \<le> 0"
    by (auto split: option.splits)
  show ?thesis
  proof (cases "isreptask cfg ! task_idx s")
    case True
    with k \<open>task_idx s < length (target_achievements cfg)\<close>
    have "k = join ''_'' (butlast (split_on CHR ''_'' (target_achievements_base cfg ! task_idx s)))"
      by (simp add: watched_def)
    with True vw inb inr \<open>task_idx s < length (target_achievements cfg)\<close> assms(3) show ?thesis
      by (simp add: check_task_def repeat_branch_def bind_err_def nth_err_def getitem_def Let_def)
  next
    case False
    with k \<open>task_idx s < length (target_achievements cfg)\<close>
    have "k = target_achievements_base cfg ! task_idx s"
      by (simp add: watched_def)
    with False vw inb inr \<open>task_idx s < length (target_achievements cfg)\<close> show ?thesis
      by (simp add: check_task_def single_branch_def bind_err_def nth_err_def getitem_def Let_def)
  qed
qed

lemma quiet_step:
  assumes "wf_config cfg"
    and "quiet (watched cfg (task_idx s)) (past_achievements s) (ach # rest)"
    and "task_progress s < 1" and "task_steps s < 300"
  shows "\<exists>U. get_reward cfg ach r s
           = Inr (0, s\<lparr>unlocked := U, task_steps := task_steps s + 1,
                         past_achievements := ach\<rparr>)"
proof -
  let ?U = "unlocked s \<union>
      fst ` set (filter (\<lambda>(name, count). count > 0 \<and> name \<notin> unlocked s) ach)"
  have "check_task cfg ach r (s\<lparr>unlocked := ?U\<rparr>) = Inr (0, True, s\<lparr>unlocked := ?U\<rparr>)"
    using assms(1,2,3) by (intro quiet_check_task [where rest = rest]) simp_all
  then have "get_reward cfg ach r s
           = Inr (0, s\<lparr>unlocked := ?U, task_steps := task_steps s + 1,
                         past_achievements := ach\<rparr>)"
    using assms(4) by (simp add: get_reward_def check_timeout_def bind_err_def Let_def)
  then show ?thesis by blast
qed

lemma quiet_tail:
  "quiet k past (c # cs) \<Longrightarrow> quiet k c cs"
  by (cases k) (auto split: option.splits)

lemma same_task_iff:
  "same_task s s' \<longleftrightarrow>
     (\<exists>U t a. s' = s\<lparr>unlocked := U, task_steps := t, past_achievements := a\<rparr>)"
proof
  assume "same_task s s'"
  then have "s' = s\<lparr>unlocked := unlocked s', task_steps := task_steps s',
                      past_achievements := past_achievements s'\<rparr>"
    by (simp add: same_task_def)
  then show "\<exists>U t a. s' = s\<lparr>unlocked := U, task_steps := t, past_achievements := a\<rparr>"
    by blast
next
  assume "\<exists>U t a. s' = s\<lparr>unlocked := U, task_steps := t, past_achievements := a\<rparr>"
  then obtain U t a where "s' = s\<lparr>unlocked := U, task_steps := t, past_achievements := a\<rparr>"
    by blast
  then show "same_task s s'" by (simp add: same_task_def)
qed

lemma same_task_step:
  assumes "same_task s s1"
  shows "same_task s (s1\<lparr>unlocked := U, task_steps := t, past_achievements := a\<rparr>)"
proof -
  from assms obtain U1 t1 a1 where
    "s1 = s\<lparr>unlocked := U1, task_steps := t1, past_achievements := a1\<rparr>"
    unfolding same_task_iff by blast
  then have "s1\<lparr>unlocked := U, task_steps := t, past_achievements := a\<rparr>
             = s\<lparr>unlocked := U, task_steps := t, past_achievements := a\<rparr>"
    by simp
  then show ?thesis unfolding same_task_iff by blast
qed

lemma same_task_trans:
  assumes "same_task s s1" and "same_task s1 s2"
  shows "same_task s s2"
proof -
  from assms(2) obtain U t a where
    "s2 = s1\<lparr>unlocked := U, task_steps := t, past_achievements := a\<rparr>"
    unfolding same_task_iff by blast
  with same_task_step [OF assms(1)] show ?thesis by simp
qed

text \<open>Steps without a qualifying delta, up to the threshold: nothing but the step count moves.\<close>

lemma quiet_run:
  assumes "wf_config cfg"
    and "quiet (watched cfg (task_idx s)) (past_achievements s) (map fst ins)"
    and "task_progress s < 1" and "task_steps s + length ins \<le> 300"
  shows "\<exists>out. run cfg ins s = Inr out \<and> length out = length ins \<and>
           (\<forall>i<length ins. fst (out ! i) = 0 \<and> same_task s (snd (out ! i)) \<and>
              task_steps (snd (out ! i)) = task_steps s + i + 1 \<and>
              past_achievements (snd (out ! i)) = fst (ins ! i))"
  using assms(2,3,4)
proof (induction ins arbitrary: s)
  case Nil
  then show ?case by simp
next
  case (Cons x ins)
  obtain a r where x: "x = (a, r)" by (cases x)
  from Cons.prems x have q: "quiet (watched cfg (task_idx s)) (past_achievements s) (a # map fst ins)"
    and steps: "task_steps s < 300"
    by simp_all
  from quiet_step [OF assms(1) q Cons.prems(2) steps, of r]
  obtain U where step: "get_reward cfg a r s
      = Inr (0, s\<lparr>unlocked := U, task_steps := task_steps s + 1, past_achievements := a\<rparr>)"
    by blast
  let ?s1 = "s\<lparr>unlocked := U, task_steps := task_steps s + 1, past_achievements := a\<rparr>"
  have "quiet (watched cfg (task_idx ?s1)) (past_achievements ?s1) (map fst ins)"
    using quiet_tail [OF q] by simp
  moreover have "task_progress ?s1 < 1" using Cons.prems(2) by simp
  moreover have "task_steps ?s1 + length ins \<le> 300" using Cons.prems(3) by simp
  ultimately obtain out where rest: "run cfg ins ?s1 = Inr out" and len: "length out = length ins"
    and all: "\<forall>i<length ins. fst (out ! i) = 0 \<and> same_task ?s1 (snd (out ! i)) \<and>
              task_steps (snd (out ! i)) = task_steps ?s1 + i + 1 \<and>
              past_achievements (snd (out ! i)) = fst (ins ! i)"
    using Cons.IH [of ?s1] by blast
  have run: "run cfg (x # ins) s = Inr ((0, ?s1) # out)"
    using step rest by (simp add: x bind_err_def)
  have "fst (((0, ?s1) # out) ! i) = 0 \<and> same_task s (snd (((0, ?s1) # out) ! i)) \<and>
        task_steps (snd (((0, ?s1) # out) ! i)) = task_steps s + i + 1 \<and>
        past_achievements (snd (((0, ?s1) # out) ! i)) = fst ((x # ins) ! i)"
    if "i < length (x # ins)" for i
  proof (cases i)
    case 0
    have "same_task s ?s1" unfolding same_task_iff by blast
    with 0 show ?thesis by (simp add: x)
  next
    case (Suc j)
    with that have "j < length ins" by simp
    with all have j: "fst (out ! j) = 0" "same_task ?s1 (snd (out ! j))"
      "task_steps (snd (out ! j)) = task_steps ?s1 + j + 1"
      "past_achievements (snd (out ! j)) = fst (ins ! j)"
      by simp_all
    have "same_task s ?s1" unfolding same_task_iff by blast
    from same_task_trans [OF this j(2)] have "same_task s (snd (out ! j))" .
    with j Suc show ?thesis by simp
  qed
  with run len show ?case by simp
qed


lemma same_task_fields:
  assumes "same_task s s'"
  shows "task_idx s' = task_idx s" and "task_progress s' = task_progress s"
    and "given_achievements s' = given_achievements s"
    and "selector_ok cfg s' = selector_ok cfg s" and "given_ok cfg s' = given_ok cfg s"
proof -
  from assms obtain U t a where
    "s' = s\<lparr>unlocked := U, task_steps := t, past_achievements := a\<rparr>"
    unfolding same_task_iff by blast
  then show "task_idx s' = task_idx s" and "task_progress s' = task_progress s"
    and "given_achievements s' = given_achievements s"
    and "selector_ok cfg s' = selector_ok cfg s" and "given_ok cfg s' = given_ok cfg s"
    by (simp_all add: selector_ok_def given_ok_def split: selector.splits)
qed

text \<open>With a valid cursor and valid random outcomes the selector returns a task index.\<close>

lemma selector_total:
  assumes "selector_ok cfg s" and "valid_draw cfg r"
  shows "\<exists>s1. specify_task cfg r s = Inr s1 \<and>
           task_idx s1 < length (target_achievements cfg) + DUMMY_TASKS"
proof (cases "specify_task_slot s")
  case Curri
  with assms(2) show ?thesis
    by (simp add: specify_task_def specify_curri_task_def valid_draw_def Let_def)
next
  case Eval
  with assms(1) have len: "length (eval_task_seq s) = length (target_achievements cfg)"
    and cur: "eval_id s < length (eval_task_seq s)"
    and perm: "mset (eval_task_seq s) = mset [0..<length (target_achievements cfg)]"
    by (simp_all add: selector_ok_def)
  from cur len have cur': "eval_id s < length (target_achievements cfg)" by simp
  from specify_eval_step [OF Eval len cur', of r]
  obtain s1 where s1: "specify_task cfg r s = Inr s1"
    and idx: "task_idx s1 = eval_task_seq s ! eval_id s"
    by blast
  from cur have "eval_task_seq s ! eval_id s \<in> set (eval_task_seq s)" by simp
  also from perm have "set (eval_task_seq s) = set [0..<length (target_achievements cfg)]"
    by (rule mset_eq_setD)
  finally have "task_idx s1 < length (target_achievements cfg)" using idx by simp
  with s1 show ?thesis by auto
qed

lemma timeout_step:
  assumes "wf_config cfg"
    and "quiet (watched cfg (task_idx s)) (past_achievements s) (ach # rest)"
    and "task_progress s < 1" and "task_steps s = 300"
    and "selector_ok cfg s" and "given_ok cfg s" and "valid_draw cfg r"
  shows "\<exists>s_pre s_sel s'.
           same_task s s_pre \<and> task_steps s_pre = 301 \<and>
           specify_task cfg r s_pre = Inr s_sel \<and>
           get_reward cfg ach r s = Inr (0, s') \<and>
           s' = s_sel\<lparr>given_achievements := given_achievements s', task_progress := 0,
                       past_achievements := ach\<rparr> \<and>
           incr (given_achievements s) (given_key cfg (task_idx s'))
             = Inr (given_achievements s')"
proof -
  let ?U = "unlocked s \<union>
      fst ` set (filter (\<lambda>(name, count). count > 0 \<and> name \<notin> unlocked s) ach)"
  let ?s0 = "s\<lparr>unlocked := ?U\<rparr>"
  let ?pre = "s\<lparr>unlocked := ?U, task_steps := 301\<rparr>"
  have chk: "check_task cfg ach r ?s0 = Inr (0, True, ?s0)"
    using assms(1,2,3) by (intro quiet_check_task [where rest = rest]) simp_all
  have same: "same_task s ?pre"
    unfolding same_task_iff
    by (intro exI [of _ ?U] exI [of _ 301] exI [of _ "past_achievements s"]) simp
  from same_task_fields(4,5) [OF same, of cfg] assms(5,6)
  have "selector_ok cfg ?pre" and gok: "given_ok cfg ?pre" by simp_all
  from selector_total [OF this(1) assms(7)]
  obtain s_sel where sel: "specify_task cfg r ?pre = Inr s_sel"
    and bound: "task_idx s_sel < length (target_achievements cfg) + DUMMY_TASKS"
    by blast
  from specify_task_fields(2) [OF sel] have g: "given_achievements s_sel = given_achievements s"
    by simp
  from gok bound have "given_key cfg (task_idx s_sel) \<in> fst ` set (given_achievements s)"
    by (simp add: given_ok_def)
  from incr_defined [OF this]
  obtain g' where g': "incr (given_achievements s) (given_key cfg (task_idx s_sel)) = Inr g'"
    by blast
  let ?s' = "s_sel\<lparr>given_achievements := g', task_progress := 0, past_achievements := ach\<rparr>"
  have upd: "update_given_ach cfg s_sel = Inr (s_sel\<lparr>given_achievements := g'\<rparr>)"
    using g g' by (simp add: update_given_ach_def bind_err_def)
  have "check_timeout cfg r ?s0 = Inr (s_sel\<lparr>given_achievements := g', task_progress := 0\<rparr>)"
    using assms(4) sel upd by (simp add: check_timeout_def bind_err_def Let_def)
  with chk have "get_reward cfg ach r s = Inr (0, ?s')"
    by (simp add: get_reward_def bind_err_def Let_def)
  moreover have "?s' = s_sel\<lparr>given_achievements := given_achievements ?s', task_progress := 0,
                       past_achievements := ach\<rparr>"
    by simp
  moreover have "incr (given_achievements s) (given_key cfg (task_idx ?s'))
             = Inr (given_achievements ?s')"
    using g' by simp
  moreover have "task_steps ?pre = 301" by simp
  ultimately show ?thesis using same sel by blast
qed

lemma final_Cons: "final s ((reward, s1) # out) = final s1 out"
  by (simp add: final_def envs_def)

lemma run_append:
  "run cfg (xs @ ys) s =
     bind_err (run cfg xs s) (\<lambda>out1.
     bind_err (run cfg ys (final s out1)) (\<lambda>out2. Inr (out1 @ out2)))"
proof (induction xs arbitrary: s)
  case Nil
  show ?case by (simp add: bind_err_def final_def envs_def split: sum.splits)
next
  case (Cons x xs)
  obtain a r where x: "x = (a, r)" by (cases x)
  show ?case
    by (cases "get_reward cfg a r s")
       (auto simp: x Cons.IH bind_err_def final_Cons split: sum.splits)
qed

lemma quiet_append:
  "quiet k past (cs @ ds) \<Longrightarrow> quiet k past cs \<and> quiet k (last (past # cs)) ds"
proof (induction cs arbitrary: past)
  case Nil
  then show ?case by (cases k) simp_all
next
  case (Cons c cs)
  show ?case
  proof (cases k)
    case None
    then show ?thesis by simp
  next
    case (Some key)
    with Cons.prems obtain v w where "map_of c key = Some v" "map_of past key = Some w"
      "v - w \<le> 0" "quiet (Some key) c (cs @ ds)"
      by (auto split: option.splits)
    with Cons.IH [of c] Some show ?thesis by simp
  qed
qed


lemma same_task_slot:
  assumes "same_task s s'"
  shows "specify_task_slot s' = specify_task_slot s"
proof -
  from assms obtain U t a where
    "s' = s\<lparr>unlocked := U, task_steps := t, past_achievements := a\<rparr>"
    unfolding same_task_iff by blast
  then show ?thesis by simp
qed

lemma last_after:
  "length ys = Suc n \<Longrightarrow> last (p # map f ys) = f (ys ! n)"
  by (cases ys rule: rev_cases) (simp_all add: nth_append)

text \<open>
  301 steps without a qualifying delta after an assignment: 300 steps that keep the
  task, then the step that reassigns.
\<close>

lemma timeout_run:
  assumes "wf_config cfg" and "task_steps s = 0" and "task_progress s < 1"
    and "length ins = 301"
    and "quiet (watched cfg (task_idx s)) (past_achievements s) (map fst ins)"
    and "selector_ok cfg s" and "given_ok cfg s" and "valid_draw cfg (snd (ins ! 300))"
  shows "\<exists>out s_pre s_sel.
           run cfg ins s = Inr out \<and> map fst out = replicate 301 0 \<and>
           (\<forall>i<300. same_task s (snd (out ! i)) \<and> task_steps (snd (out ! i)) = i + 1) \<and>
           same_task s s_pre \<and> task_steps s_pre = 301 \<and>
           specify_task cfg (snd (ins ! 300)) s_pre = Inr s_sel \<and>
           final s out = s_sel\<lparr>given_achievements := given_achievements (final s out),
                                 task_progress := 0, past_achievements := fst (ins ! 300)\<rparr> \<and>
           task_steps (final s out) = 0 \<and> task_progress (final s out) = 0 \<and>
           incr (given_achievements s) (given_key cfg (task_idx (final s out)))
             = Inr (given_achievements (final s out)) \<and>
           (given_key cfg (task_idx (final s out)) \<noteq> given_key cfg (task_idx s) \<longrightarrow>
              map_of (given_achievements (final s out)) (given_key cfg (task_idx s))
                = map_of (given_achievements s) (given_key cfg (task_idx s)))"
proof -
  let ?xs = "take 300 ins"
  obtain a r where last: "ins ! 300 = (a, r)" by (cases "ins ! 300")
  from assms(4) have split: "ins = ?xs @ [(a, r)]"
    by (metis last lessI take_Suc_conv_app_nth take_all order_refl
        numeral_eq_Suc pred_numeral_simps(3) Suc_eq_plus1 add.commute
        cancel_comm_monoid_add_class.diff_cancel diff_is_0_eq' le_add2)
  have lxs: "length ?xs = 300" using assms(4) by simp
  from assms(5) have "quiet (watched cfg (task_idx s)) (past_achievements s) (map fst ?xs @ [a])"
    by (subst (asm) split) simp
  from quiet_append [OF this]
  have q1: "quiet (watched cfg (task_idx s)) (past_achievements s) (map fst ?xs)"
    and q2: "quiet (watched cfg (task_idx s)) (last (past_achievements s # map fst ?xs)) [a]"
    by simp_all
  from quiet_run [OF assms(1) q1 assms(3)] assms(2) lxs
  obtain out1 where run1: "run cfg ?xs s = Inr out1" and len1: "length out1 = 300"
    and all1: "\<forall>i<300. fst (out1 ! i) = 0 \<and> same_task s (snd (out1 ! i)) \<and>
              task_steps (snd (out1 ! i)) = i + 1 \<and>
              past_achievements (snd (out1 ! i)) = fst (?xs ! i)"
    by auto
  let ?s300 = "snd (out1 ! 299)"
  from len1 have ne: "out1 \<noteq> []" by auto
  have fin1: "final s out1 = ?s300"
    using len1 ne by (simp add: final_def envs_def last_map last_conv_nth)
  from all1 have s300: "same_task s ?s300" "task_steps ?s300 = 300"
    "past_achievements ?s300 = fst (?xs ! 299)"
    by simp_all
  have "length ?xs = Suc 299" using lxs by simp
  then have "last (past_achievements s # map fst ?xs) = fst (?xs ! 299)"
    by (rule last_after)
  with q2 s300 same_task_fields(1) [OF s300(1)]
  have q300: "quiet (watched cfg (task_idx ?s300)) (past_achievements ?s300) [a]"
    by simp
  from timeout_step [where r = r, OF assms(1) q300 _ s300(2)]
    same_task_fields(2,3) [OF s300(1)] same_task_fields(4,5) [OF s300(1), of cfg]
    assms(3,6,7,8) last
  obtain s_pre s_sel s' where pre: "same_task ?s300 s_pre" "task_steps s_pre = 301"
    and sel: "specify_task cfg r s_pre = Inr s_sel"
    and step: "get_reward cfg a r ?s300 = Inr (0, s')"
    and s': "s' = s_sel\<lparr>given_achievements := given_achievements s', task_progress := 0,
                       past_achievements := a\<rparr>"
    and inc: "incr (given_achievements s) (given_key cfg (task_idx s'))
             = Inr (given_achievements s')"
    by auto
  have run: "run cfg ins s = Inr (out1 @ [(0, s')])"
    by (subst split) (simp add: run_append run1 fin1 step bind_err_def)
  have fin: "final s (out1 @ [(0, s')]) = s'"
    by (simp add: final_def envs_def)
  have rew: "map fst (out1 @ [(0, s')]) = replicate 301 0"
  proof (rule nth_equalityI)
    show "length (map fst (out1 @ [(0, s')])) = length (replicate 301 (0::real))"
      using len1 by simp
  next
    fix i
    assume "i < length (map fst (out1 @ [(0, s')]))"
    with len1 have "i < 301" by simp
    then show "map fst (out1 @ [(0, s')]) ! i = replicate 301 0 ! i"
      using all1 len1 by (cases "i < 300") (simp_all add: nth_append)
  qed
  have keep: "\<forall>i<300. same_task s (snd ((out1 @ [(0, s')]) ! i)) \<and>
                 task_steps (snd ((out1 @ [(0, s')]) ! i)) = i + 1"
    using all1 len1 by (simp add: nth_append)
  have "task_steps s_sel = 0" "task_progress s' = 0"
    using specify_task_fields(1) [OF sel] s'
    by (simp, metis env.select_convs(1) env.surjective env.update_convs(1,5,7))
  then have zero: "task_steps s' = 0" "task_progress s' = 0"
    using s' by (metis env.select_convs(4) env.surjective env.update_convs(1,5,7), simp)
  have other: "given_key cfg (task_idx s') \<noteq> given_key cfg (task_idx s) \<longrightarrow>
      map_of (given_achievements s') (given_key cfg (task_idx s))
        = map_of (given_achievements s) (given_key cfg (task_idx s))"
    using incr_other [OF inc] by auto
  from same_task_trans [OF s300(1) pre(1)] have "same_task s s_pre" .
  with run rew keep pre(2) sel s' zero inc other last show ?thesis
    by (intro exI [of _ "out1 @ [(0, s')]"] exI [of _ s_pre] exI [of _ s_sel])
       (simp add: fin)
qed


text \<open>
  Claim C3, as the code has it. After an assignment (\<open>task_steps = 0\<close>, progress below
  1), let 301 steps pass without a qualifying delta, with a valid cursor, a slot in
  \<open>given_achievements\<close> for every index and valid random outcomes for the last step.
  Then no step raises and every reward is 0; the first 300 steps keep the task and only
  count \<open>task_steps\<close> up; the 301st step calls the selector on an environment with
  \<open>task_steps = 301\<close>, and ends with the selector's task, \<open>task_steps = 0\<close> and
  \<open>task_progress = 0\<close>. \<open>given_achievements\<close> changes by one
  \<open>given_achievements[key] += 1\<close> for the key of the newly selected task: the count of
  the abandoned task is unchanged if the new task has another key.
\<close>

theorem timeout_reassigns:
  assumes "wf_config cfg" and "task_steps s = 0" and "task_progress s < 1"
    and "length ins = 301"
    and "quiet (watched cfg (task_idx s)) (past_achievements s) (map fst ins)"
    and "selector_ok cfg s" and "given_ok cfg s" and "valid_draw cfg (snd (ins ! 300))"
  shows "\<exists>out s_pre s_sel.
           run cfg ins s = Inr out \<and> map fst out = replicate 301 0 \<and>
           (\<forall>i<300. same_task s (snd (out ! i)) \<and> task_steps (snd (out ! i)) = i + 1) \<and>
           same_task s s_pre \<and> task_steps s_pre = 301 \<and>
           specify_task cfg (snd (ins ! 300)) s_pre = Inr s_sel \<and>
           final s out = s_sel\<lparr>given_achievements := given_achievements (final s out),
                                 task_progress := 0, past_achievements := fst (ins ! 300)\<rparr> \<and>
           task_steps (final s out) = 0 \<and> task_progress (final s out) = 0 \<and>
           incr (given_achievements s) (given_key cfg (task_idx (final s out)))
             = Inr (given_achievements (final s out)) \<and>
           (given_key cfg (task_idx (final s out)) \<noteq> given_key cfg (task_idx s) \<longrightarrow>
              map_of (given_achievements (final s out)) (given_key cfg (task_idx s))
                = map_of (given_achievements s) (given_key cfg (task_idx s)))"
  using assms by (rule timeout_run)

subsection \<open>The instance with \<open>place_table\<close> active\<close>

lemma table_env_reachable:
  "reset demo_cfg (wood 0) (demo_draw 1) (init demo_cfg) = Inr table_env"
proof -
  have zeros: "replicate 10 (0::nat) = [0, 0, 0, 0, 0, 0, 0, 0, 0, 0]"
    by (simp add: numeral_eq_Suc)
  have enc: "encode_task demo_cfg r s i = task_enc table_env" if "task_idx s = 1" for r s i
    using that by (simp add: encode_real demo_cfg_fields table_env_def ENC_ORDER_def INSTRS_def
        OBJS_def MATS_def TOOLS_def COUNT_def DUMMY_BITS_def str_of_nat.simps digit_char_def
        upt_rec_numeral zeros)
  have follow: "fresh_follow demo_cfg = [(''collect_wood_10'', 0), (''place_table'', 0)]"
    by (simp add: fresh_follow_def zeros_into_def demo_cfg_fields)
  show ?thesis
    unfolding reset_def Let_def init_def specify_task_def specify_curri_task_def
    by (simp add: enc [simplified] follow update_given_ach_def incr_def given_key_def
        bind_err_def demo_cfg_fields map_of_demo_given demo_draw_def table_env_def wood_def)
qed

lemma demo_wf: "wf_config demo_cfg"
  by (simp add: wf_config_def demo_cfg_fields)

lemma given_ok_fresh:
  "given_achievements s = AList.update k v (fresh_given cfg) \<Longrightarrow> given_ok cfg s"
  by (auto simp: given_ok_def dom_update fresh_given_def keys_zeros_into given_key_def)

lemma demo_valid_draw:
  "i < 2 + DUMMY_TASKS \<Longrightarrow> valid_draw demo_cfg (demo_draw i)"
  using demo_perms(2) [of i]
  by (simp add: valid_draw_def valid_bits_def demo_cfg_fields DUMMY_BITS_def)
     (simp add: demo_draw_def)

lemma quiet_replicate:
  "map_of c k = Some v \<Longrightarrow> quiet (Some k) c (replicate m c)"
  by (induction m) simp_all

lemma table_quiet:
  "quiet (watched demo_cfg (task_idx table_env)) (past_achievements table_env)
     (map fst (replicate 301 (wood 0, r)))"
proof -
  have "watched demo_cfg (task_idx table_env) = Some ''place_table''"
    by (simp add: watched_def table_env_def demo_cfg_fields)
  moreover have "map_of (wood 0) ''place_table'' = Some 0" by (simp add: wood_def)
  ultimately show ?thesis by (simp add: table_env_def quiet_replicate)
qed

lemma table_facts:
  "task_steps table_env = 0" "task_progress table_env < 1"
  "selector_ok demo_cfg table_env" "given_ok demo_cfg table_env"
  "task_idx table_env = 1" "specify_task_slot table_env = Curri"
  "map_of (given_achievements table_env) ''place_table'' = Some 1"
  "map_of (given_achievements table_env) ''collect_wood_10'' = Some 0"
  by (simp_all add: table_env_def selector_ok_def given_ok_fresh update_conv' map_of_demo_given)

lemma demo_keys:
  "given_key demo_cfg 0 = ''collect_wood_10''" "given_key demo_cfg 1 = ''place_table''"
  by (simp_all add: given_key_def demo_cfg_fields)

lemma given_after_run:
  "run cfg ins s = Inr out \<Longrightarrow>
   given_after cfg ins s k = map_of (given_achievements (final s out)) k"
  by (simp add: given_after_def)

lemma rewards_run: "run cfg ins s = Inr out \<Longrightarrow> rewards cfg ins s = Inr (map fst out)"
  by (simp add: rewards_def bind_err_def)

text \<open>What the selector picked at the end of a timeout run in curriculum mode.\<close>

lemma curri_pick:
  assumes "same_task s s_pre" and "specify_task_slot s = Curri"
    and "specify_task cfg r s_pre = Inr s_sel"
    and "s' = s_sel\<lparr>given_achievements := g, task_progress := 0, past_achievements := a\<rparr>"
  shows "task_idx s' = choice_idx r"
proof -
  from same_task_slot [OF assms(1)] assms(2) have "specify_task_slot s_pre = Curri" by simp
  with assms(3) have "task_idx s_sel = choice_idx r"
    by (auto simp: specify_task_def specify_curri_task_def Let_def)
  with assms(4) show ?thesis by simp
qed

theorem timeout_reassigns_witness:
  "wf_config demo_cfg \<and> task_steps table_env = 0 \<and> task_progress table_env < 1 \<and>
   length (replicate 301 (wood 0, demo_draw 0)) = 301 \<and>
   quiet (watched demo_cfg (task_idx table_env)) (past_achievements table_env)
     (map fst (replicate 301 (wood 0, demo_draw 0))) \<and>
   selector_ok demo_cfg table_env \<and> given_ok demo_cfg table_env \<and>
   valid_draw demo_cfg (snd (replicate 301 (wood 0, demo_draw 0) ! 300)) \<and>
   rewards demo_cfg (replicate 301 (wood 0, demo_draw 0)) table_env = Inr (replicate 301 0) \<and>
   given_after demo_cfg (replicate 301 (wood 0, demo_draw 0)) table_env ''place_table''
     = Some 1 \<and>
   given_after demo_cfg (replicate 301 (wood 0, demo_draw 0)) table_env ''collect_wood_10''
     = Some 1"
proof -
  let ?ins = "replicate 301 (wood 0, demo_draw 0)"
  have len: "length ?ins = 301" by simp
  have last: "?ins ! 300 = (wood 0, demo_draw 0)" by simp
  have valid: "valid_draw demo_cfg (snd (?ins ! 300))"
    unfolding last by (simp add: demo_valid_draw)
  from timeout_reassigns [OF demo_wf table_facts(1,2) len table_quiet table_facts(3,4) valid]
  obtain out s_pre s_sel where run: "run demo_cfg ?ins table_env = Inr out"
    and rew: "map fst out = replicate 301 0"
    and pre: "same_task table_env s_pre"
    and sel: "specify_task demo_cfg (snd (?ins ! 300)) s_pre = Inr s_sel"
    and fin: "final table_env out
                = s_sel\<lparr>given_achievements := given_achievements (final table_env out),
                         task_progress := 0, past_achievements := fst (?ins ! 300)\<rparr>"
    and inc: "incr (given_achievements table_env)
                (given_key demo_cfg (task_idx (final table_env out)))
              = Inr (given_achievements (final table_env out))"
    by blast
  from curri_pick [OF pre table_facts(6) sel fin]
  have idx: "task_idx (final table_env out) = 0"
    unfolding last by (simp add: demo_draw_def)
  from inc have inc0: "incr (given_achievements table_env) ''collect_wood_10''
              = Inr (given_achievements (final table_env out))"
    unfolding idx demo_keys .
  from incr_same [OF inc0] table_facts(8)
  have a: "map_of (given_achievements (final table_env out)) ''collect_wood_10'' = Some 1"
    by simp
  from incr_other [OF inc0, of "''place_table''"] table_facts(7)
  have b: "map_of (given_achievements (final table_env out)) ''place_table'' = Some 1"
    by simp
  show ?thesis
    using demo_wf table_facts(1,2,3,4) len table_quiet valid rewards_run [OF run] rew
      a b given_after_run [OF run]
    by simp
qed

text \<open>
  Claim C3 as stated says the count of the abandoned task is not incremented. The
  curriculum selector draws with replacement: when it draws the abandoned task again
  (here \<open>place_table\<close>, index 1), the count of that task goes from 1 to 2.
\<close>

theorem timeout_same_task_counterexample:
  "task_idx table_env = 1 \<and> given_key demo_cfg 1 = ''place_table'' \<and>
   map_of (given_achievements table_env) ''place_table'' = Some 1 \<and>
   rewards demo_cfg (replicate 301 (wood 0, demo_draw 1)) table_env = Inr (replicate 301 0) \<and>
   given_after demo_cfg (replicate 301 (wood 0, demo_draw 1)) table_env ''place_table''
     = Some 2"
proof -
  let ?ins = "replicate 301 (wood 0, demo_draw 1)"
  have len: "length ?ins = 301" by simp
  have last: "?ins ! 300 = (wood 0, demo_draw 1)" by simp
  have valid: "valid_draw demo_cfg (snd (?ins ! 300))"
    unfolding last by (simp add: demo_valid_draw)
  from timeout_run [OF demo_wf table_facts(1,2) len table_quiet table_facts(3,4) valid]
  obtain out s_pre s_sel where run: "run demo_cfg ?ins table_env = Inr out"
    and rew: "map fst out = replicate 301 0"
    and pre: "same_task table_env s_pre"
    and sel: "specify_task demo_cfg (snd (?ins ! 300)) s_pre = Inr s_sel"
    and fin: "final table_env out
                = s_sel\<lparr>given_achievements := given_achievements (final table_env out),
                         task_progress := 0, past_achievements := fst (?ins ! 300)\<rparr>"
    and inc: "incr (given_achievements table_env)
                (given_key demo_cfg (task_idx (final table_env out)))
              = Inr (given_achievements (final table_env out))"
    by blast
  from curri_pick [OF pre table_facts(6) sel fin]
  have idx: "task_idx (final table_env out) = 1"
    unfolding last by (simp add: demo_draw_def)
  from inc have inc1: "incr (given_achievements table_env) ''place_table''
              = Inr (given_achievements (final table_env out))"
    unfolding idx demo_keys .
  from incr_same [OF inc1] table_facts(7)
  have "map_of (given_achievements (final table_env out)) ''place_table'' = Some 2"
    by simp
  then show ?thesis
    using table_facts(5,7) demo_keys(2) rewards_run [OF run] rew given_after_run [OF run]
    by simp
qed


section \<open>The snapshot across steps\<close>

text \<open>
  What the delta test of one step reads: the reward is decided by the difference between
  the current count and the count in \<open>past_achievements\<close> at the watched key (and, for a
  repeat task, by \<open>task_progress\<close>); a decoy gets no reward.
\<close>

lemma repeat_branch_reward_here:
  assumes "repeat_branch cfg ach r td bd s = Inr (reward, tf, s')"
    and "k = join ''_'' (butlast (split_on CHR ''_'' bd))"
  shows "\<exists>v u. map_of ach k = Some v \<and> map_of (past_achievements s) k = Some u \<and>
           (if v - u > 0 then
              (\<exists>n q. float_of_str (last (split_on CHR ''_'' td)) = Inr n \<and>
                     fdiv 1 n = Inr q \<and>
                     reward = (if fadd (task_progress s) q \<ge> 1 then 1 else 0))
            else reward = (if task_progress s \<ge> 1 then 1 else 0))"
proof -
  from assms obtain v where v: "map_of ach k = Some v"
    by (cases "map_of ach k") (auto simp: repeat_branch_def bind_err_def getitem_def Let_def)
  from assms v obtain u where u: "map_of (past_achievements s) k = Some u"
    by (cases "map_of (past_achievements s) k")
       (auto simp: repeat_branch_def bind_err_def getitem_def Let_def)
  have "if v - u > 0 then
              (\<exists>n q. float_of_str (last (split_on CHR ''_'' td)) = Inr n \<and>
                     fdiv 1 n = Inr q \<and>
                     reward = (if fadd (task_progress s) q \<ge> 1 then 1 else 0))
            else reward = (if task_progress s \<ge> 1 then 1 else 0)"
  proof (cases "v - u > 0")
    case False
    with assms v u have "reward = (if task_progress s \<ge> 1 then 1 else 0)"
      by (auto simp: repeat_branch_def bind_err_def getitem_def Let_def
          split: sum.splits if_splits)
    with False show ?thesis by simp
  next
    case True
    with assms v u obtain n where n: "float_of_str (last (split_on CHR ''_'' td)) = Inr n"
      by (cases "float_of_str (last (split_on CHR ''_'' td))")
         (auto simp: repeat_branch_def bind_err_def getitem_def Let_def)
    with assms v u True obtain q where q: "fdiv 1 n = Inr q"
      by (cases "fdiv 1 n") (auto simp: repeat_branch_def bind_err_def getitem_def Let_def)
    with assms v u True n have "reward = (if fadd (task_progress s) q \<ge> 1 then 1 else 0)"
      by (auto simp: repeat_branch_def bind_err_def getitem_def Let_def
          split: sum.splits if_splits)
    with True n q show ?thesis by simp
  qed
  with v u show ?thesis by blast
qed

lemma repeat_branch_reward:
  assumes "repeat_branch cfg ach r td bd s = Inr (reward, tf, s')"
    and "k = join ''_'' (butlast (split_on CHR ''_'' bd))"
    and "task_progress s = p" and "past_achievements s = snapshot"
  shows "\<exists>v u. map_of ach k = Some v \<and> map_of snapshot k = Some u \<and>
           (if v - u > 0 then
              (\<exists>n q. float_of_str (last (split_on CHR ''_'' td)) = Inr n \<and>
                     fdiv 1 n = Inr q \<and>
                     reward = (if fadd p q \<ge> 1 then 1 else 0))
            else reward = (if p \<ge> 1 then 1 else 0))"
  using repeat_branch_reward_here [OF assms(1,2)] unfolding assms(3,4) .

lemma single_branch_reward_here:
  assumes "single_branch cfg ach r td bd s = Inr (reward, tf, s')"
  shows "\<exists>v u. map_of ach bd = Some v \<and> map_of (past_achievements s) bd = Some u \<and>
           reward = (if v - u > 0 then 1 else 0)"
proof -
  from assms obtain v where v: "map_of ach bd = Some v"
    by (cases "map_of ach bd") (auto simp: single_branch_def bind_err_def getitem_def)
  from assms v obtain u where u: "map_of (past_achievements s) bd = Some u"
    by (cases "map_of (past_achievements s) bd")
       (auto simp: single_branch_def bind_err_def getitem_def)
  from assms v u have "reward = (if v - u > 0 then 1 else 0)"
    by (auto simp: single_branch_def bind_err_def getitem_def split: sum.splits if_splits)
  with v u show ?thesis by blast
qed

lemma single_branch_reward:
  assumes "single_branch cfg ach r td bd s = Inr (reward, tf, s')"
    and "past_achievements s = snapshot"
  shows "\<exists>v u. map_of ach bd = Some v \<and> map_of snapshot bd = Some u \<and>
           reward = (if v - u > 0 then 1 else 0)"
  using single_branch_reward_here [OF assms(1)] unfolding assms(2) .

lemma reward_reads_snapshot:
  assumes "wf_config cfg" and "get_reward cfg ach r s = Inr (reward, s')"
  shows "case watched cfg (task_idx s) of
           None \<Rightarrow> reward = 0
         | Some k \<Rightarrow>
             (\<exists>v u. map_of ach k = Some v \<and> map_of (past_achievements s) k = Some u \<and>
                (if isreptask cfg ! task_idx s then
                   (if v - u > 0 then
                      (\<exists>n q. float_of_str
                                (last (split_on CHR ''_'' (target_achievements cfg ! task_idx s)))
                              = Inr n \<and>
                             fdiv 1 n = Inr q \<and>
                             reward = (if fadd (task_progress s) q \<ge> 1 then 1 else 0))
                    else reward = (if task_progress s \<ge> 1 then 1 else 0))
                 else reward = (if v - u > 0 then 1 else 0)))"
proof -
  let ?s0 = "s\<lparr>unlocked := unlocked s \<union>
      fst ` set (filter (\<lambda>(name, count). count > 0 \<and> name \<notin> unlocked s) ach)\<rparr>"
  from assms(2) obtain tf s1 where ct: "check_task cfg ach r ?s0 = Inr (reward, tf, s1)"
    by (auto simp: get_reward_def bind_err_def Let_def split: sum.splits prod.splits)
  show ?thesis
  proof (cases "task_idx s < length (target_achievements cfg)")
    case False
    with ct show ?thesis by (simp add: watched_def check_task_def)
  next
    case True
    with assms(1) have inb: "task_idx s < length (target_achievements_base cfg)"
      and inr: "task_idx s < length (isreptask cfg)"
      by (simp_all add: wf_config_def)
    show ?thesis
    proof (cases "isreptask cfg ! task_idx s")
      case rep: True
      with True inb inr ct have
        "repeat_branch cfg ach r (target_achievements cfg ! task_idx s)
           (target_achievements_base cfg ! task_idx s) ?s0 = Inr (reward, tf, s1)"
        by (simp add: check_task_def bind_err_def nth_err_def Let_def)
      then have "\<exists>v u. map_of ach
                 (join ''_'' (butlast (split_on CHR ''_''
                    (target_achievements_base cfg ! task_idx s)))) = Some v \<and>
               map_of (past_achievements s)
                 (join ''_'' (butlast (split_on CHR ''_''
                    (target_achievements_base cfg ! task_idx s)))) = Some u \<and>
           (if v - u > 0 then
              (\<exists>n q. float_of_str
                        (last (split_on CHR ''_'' (target_achievements cfg ! task_idx s)))
                      = Inr n \<and>
                     fdiv 1 n = Inr q \<and>
                     reward = (if fadd (task_progress s) q \<ge> 1 then 1 else 0))
            else reward = (if task_progress s \<ge> 1 then 1 else 0))"
        by (rule repeat_branch_reward) simp_all
      then show ?thesis
        using True rep by (simp add: watched_def)
    next
      case single: False
      with True inb inr ct have
        "single_branch cfg ach r (target_achievements cfg ! task_idx s)
           (target_achievements_base cfg ! task_idx s) ?s0 = Inr (reward, tf, s1)"
        by (simp add: check_task_def bind_err_def nth_err_def Let_def)
      then have "\<exists>v u. map_of ach (target_achievements_base cfg ! task_idx s) = Some v \<and>
               map_of (past_achievements s) (target_achievements_base cfg ! task_idx s) = Some u \<and>
               reward = (if v - u > 0 then 1 else 0)"
        by (rule single_branch_reward) simp
      then show ?thesis
        using True single by (simp add: watched_def)
    qed
  qed
qed

text \<open>
  Claim C9. Every step that returns ends with \<open>past_achievements\<close> equal to the counter it
  was computed from, on every path. Hence in two consecutive steps with counters \<open>a1\<close>
  and \<open>a2\<close>, the second step decides its reward by comparing \<open>a2\<close> with \<open>a1\<close> at the key
  watched by the task that is active after the first step, whether or not the first step
  assigned that task: never with the snapshot from before the first step.
\<close>

theorem snapshot_used_by_next_step:
  assumes "wf_config cfg"
    and "get_reward cfg a1 r1 s = Inr (w1, s1)"
    and "get_reward cfg a2 r2 s1 = Inr (w2, s2)"
  shows "past_achievements s1 = a1 \<and> past_achievements s2 = a2 \<and>
         (case watched cfg (task_idx s1) of
            None \<Rightarrow> w2 = 0
          | Some k \<Rightarrow>
              (\<exists>v u. map_of a2 k = Some v \<and> map_of a1 k = Some u \<and>
                 (if isreptask cfg ! task_idx s1 then
                    (if v - u > 0 then
                       (\<exists>n q. float_of_str
                                 (last (split_on CHR ''_'' (target_achievements cfg ! task_idx s1)))
                               = Inr n \<and>
                              fdiv 1 n = Inr q \<and>
                              w2 = (if fadd (task_progress s1) q \<ge> 1 then 1 else 0))
                     else w2 = (if task_progress s1 \<ge> 1 then 1 else 0))
                  else w2 = (if v - u > 0 then 1 else 0))))"
proof -
  from snapshot_after_step [OF assms(2)] have p1: "past_achievements s1 = a1" .
  from snapshot_after_step [OF assms(3)] have p2: "past_achievements s2 = a2" .
  note r = reward_reads_snapshot [OF assms(1,3), unfolded p1]
  show ?thesis by (rule conjI [OF p1 conjI [OF p2 r]])
qed

lemma table_step_one:
  "get_reward demo_cfg placed (demo_draw 1) table_env = Inr (1, table_env1)"
proof -
  have enc: "encode_task demo_cfg r s i = task_enc table_env" if "task_idx s = 1" for r s i
  proof -
    have zeros: "replicate 10 (0::nat) = [0, 0, 0, 0, 0, 0, 0, 0, 0, 0]"
      by (simp add: numeral_eq_Suc)
    show ?thesis
      using that by (simp add: encode_real demo_cfg_fields table_env_def ENC_ORDER_def
          INSTRS_def OBJS_def MATS_def TOOLS_def COUNT_def DUMMY_BITS_def str_of_nat.simps
          digit_char_def upt_rec_numeral zeros)
  qed
  show ?thesis
    by (simp add: step_defs demo_cfg_fields map_of_demo_given table_env_def table_env1_def
        placed_def wood_def Let_def specify_task_def specify_curri_task_def
        update_given_ach_def incr_def given_key_def update_conv' demo_draw_def
        enc [simplified])
qed

lemma table_step_two:
  "get_reward demo_cfg placed (demo_draw 1) table_env1 = Inr (0, table_env2)"
  by (simp add: step_defs demo_cfg_fields table_env_def table_env1_def table_env2_def
      placed_def wood_def Let_def)

theorem snapshot_used_by_next_step_witness:
  "wf_config demo_cfg \<and>
   get_reward demo_cfg placed (demo_draw 1) table_env = Inr (1, table_env1) \<and>
   get_reward demo_cfg placed (demo_draw 1) table_env1 = Inr (0, table_env2) \<and>
   past_achievements table_env = wood 0 \<and>
   past_achievements table_env1 = placed \<and> past_achievements table_env2 = placed \<and>
   watched demo_cfg (task_idx table_env1) = Some ''place_table'' \<and>
   map_of placed ''place_table'' = Some 1 \<and> map_of (wood 0) ''place_table'' = Some 0"
proof -
  have w: "watched demo_cfg (task_idx table_env1) = Some ''place_table''"
    by (simp add: watched_def table_env1_def table_env_def demo_cfg_fields)
  have "past_achievements table_env = wood 0" by (simp add: table_env_def)
  moreover have "map_of placed ''place_table'' = Some 1" by (simp add: placed_def)
  moreover have "map_of (wood 0) ''place_table'' = Some 0" by (simp add: wood_def)
  ultimately show ?thesis
    using demo_wf table_step_one table_step_two w
      snapshot_used_by_next_step [OF demo_wf table_step_one table_step_two]
    by simp
qed

end
